theory Spec2Isabelle
  imports Main "HOL-Library.Word"
begin

unbundle bit_operations_syntax

section \<open>ISO 15765-2 dissector (epan/dissectors/packet-iso15765.c)\<close>

text \<open>
  A shallow embedding of the address resolution, the PCI classification and the
  segmentation bookkeeping of \<^verbatim>\<open>dissect_iso15765\<close>. Machine integers are words of
  the C width; a frame buffer is the list of its bytes; every exception the dissector can
  raise is a value of \<open>exn\<close>; the file-scoped tables and the static counter are fields
  of an explicit state.
\<close>

subsection \<open>Buffers and exceptions\<close>

type_synonym guint8 = "8 word"
type_synonym guint16 = "16 word"
type_synonym guint32 = "32 word"

text \<open>
  A \<^verbatim>\<open>tvbuff_t\<close> is modelled by its bytes; the reported length is the number of
  bytes (frames are taken as fully captured). The accessors raise \<open>BoundsError\<close> when
  they read past the end, \<^verbatim>\<open>DISSECTOR_ASSERT\<close> raises \<open>DissectorBug\<close>.
\<close>

type_synonym tvbuff = "guint8 list"

datatype exn = BoundsError | DissectorBug

definition tvb_reported_length :: "tvbuff \<Rightarrow> guint32" where
  "tvb_reported_length tvb = of_nat (length tvb)"

definition tvb_get_guint8 :: "tvbuff \<Rightarrow> nat \<Rightarrow> exn + guint8" where
  "tvb_get_guint8 tvb i = (if i < length tvb then Inr (tvb ! i) else Inl BoundsError)"

definition tvb_get_guint16 :: "tvbuff \<Rightarrow> nat \<Rightarrow> exn + guint16" where
  "tvb_get_guint16 tvb i =
     (if i + 2 \<le> length tvb
      then Inr (push_bit 8 (ucast (tvb ! i)) OR ucast (tvb ! (i + 1)))
      else Inl BoundsError)"

definition tvb_get_guint32 :: "tvbuff \<Rightarrow> nat \<Rightarrow> exn + guint32" where
  "tvb_get_guint32 tvb i =
     (if i + 4 \<le> length tvb
      then Inr (push_bit 24 (ucast (tvb ! i)) OR push_bit 16 (ucast (tvb ! (i + 1)))
                OR push_bit 8 (ucast (tvb ! (i + 2))) OR ucast (tvb ! (i + 3)))
      else Inl BoundsError)"

text \<open>
  \<^verbatim>\<open>proto_tree_add_item_ret_uint\<close> with a big-endian encoding: the unsigned value of
  \<open>len\<close> bytes at \<open>start\<close>. A length outside 1..4 is a dissector bug, a read past the
  end a bounds error.
\<close>

definition proto_tree_add_item_ret_uint :: "tvbuff \<Rightarrow> nat \<Rightarrow> int \<Rightarrow> exn + guint32" where
  "proto_tree_add_item_ret_uint tvb start len =
     (if len < 1 \<or> 4 < len then Inl DissectorBug
      else if start + nat len \<le> length tvb
      then Inr (foldl (\<lambda>acc b. push_bit 8 acc OR ucast b) 0 (take (nat len) (drop start tvb)))
      else Inl BoundsError)"

text \<open>\<^verbatim>\<open>tvb_new_subset_length(tvb, offset, length)\<close>, for an offset inside the buffer.\<close>

definition tvb_new_subset_length :: "tvbuff \<Rightarrow> guint32 \<Rightarrow> guint32 \<Rightarrow> tvbuff" where
  "tvb_new_subset_length tvb offset data_length = take (unat data_length) (drop (unat offset) tvb)"

subsection \<open>Masked values\<close>

text \<open>
  \<^verbatim>\<open>ws_ctz\<close> (wsutil/bits_ctz.h) counts the trailing zero bits of its argument;
  for 0 it answers 64.
\<close>

fun ctz_upto :: "nat \<Rightarrow> nat \<Rightarrow> nat" where
  "ctz_upto 0 m = 0"
| "ctz_upto (Suc k) m = (if odd m then 0 else Suc (ctz_upto k (m div 2)))"

definition ws_ctz :: "nat \<Rightarrow> nat" where
  "ws_ctz m = ctz_upto 64 m"

definition masked_guint16_value :: "guint16 \<Rightarrow> guint16 \<Rightarrow> guint16" where
  "masked_guint16_value val msk = drop_bit (ws_ctz (unat msk)) (val AND msk)"

definition masked_guint32_value :: "guint32 \<Rightarrow> guint32 \<Rightarrow> guint32" where
  "masked_guint32_value val msk = drop_bit (ws_ctz (unat msk)) (val AND msk)"

subsection \<open>Configuration\<close>

definition ISO15765_ADDR_INVALID :: guint32 where
  "ISO15765_ADDR_INVALID = 0xffffffff"

definition NORMAL_ADDRESSING :: guint32 where "NORMAL_ADDRESSING = 1"
definition EXTENDED_ADDRESSING :: guint32 where "EXTENDED_ADDRESSING = 2"

text \<open>The flags and masks of packet-socketcan.h.\<close>

definition CAN_EFF_FLAG :: guint32 where "CAN_EFF_FLAG = 0x80000000"
definition CAN_EFF_MASK :: guint32 where "CAN_EFF_MASK = 0x1FFFFFFF"
definition CAN_SFF_MASK :: guint32 where "CAN_SFF_MASK = 0x000007FF"

text \<open>The bus types of packet-iso15765.h that the five entry points pass.\<close>

datatype iso15765_bus =
    ISO15765_TYPE_CAN
  | ISO15765_TYPE_CAN_FD
  | ISO15765_TYPE_LIN
  | ISO15765_TYPE_FLEXRAY
  | ISO15765_TYPE_IPDUM
  | ISO15765_TYPE_PDU_TRANSPORT

record config_can_addr_mapping =
  extended_address :: bool
  can_id :: guint32
  can_id_mask :: guint32
  source_addr_mask :: guint32
  target_addr_mask :: guint32
  ecu_addr_mask :: guint32

record config_pdu_transport_config =
  pdu_id :: guint32
  source_address_size :: guint32
  source_address_fixed :: guint32
  target_address_size :: guint32
  target_address_fixed :: guint32
  ecu_address_size :: guint32
  ecu_address_fixed :: guint32

text \<open>
  The preferences the dissector reads. \<open>config_can_addr_mappings = None\<close> is the
  \<^verbatim>\<open>NULL\<close> table pointer.
\<close>

record prefs =
  addressing :: guint32
  flexray_addressing :: guint32
  flexray_segment_size_limit :: guint32
  window :: guint32
  ipdum_addressing :: guint32
  config_can_addr_mappings :: "config_can_addr_mapping list option"
  config_pdu_transport_config_items :: "config_pdu_transport_config list"

text \<open>\<^verbatim>\<open>iso15765_info_t\<close>, the data handed to the next dissector.\<close>

record iso15765_info =
  data_bus_type :: iso15765_bus
  data_id :: guint32
  data_len :: guint32
  number_of_addresses_valid :: guint8
  source_address :: guint32
  target_address :: guint32

subsection \<open>Addresses encoded in the CAN identifier\<close>

text \<open>The search loop of \<^verbatim>\<open>find_config_can_addr_mapping\<close>: the first matching row.\<close>

fun find_mapping_row ::
  "bool \<Rightarrow> guint32 \<Rightarrow> config_can_addr_mapping list \<Rightarrow> config_can_addr_mapping option" where
  "find_mapping_row ext_id cid [] = None"
| "find_mapping_row ext_id cid (m # ms) =
     (if extended_address m = ext_id \<and> (can_id m AND can_id_mask m) = (cid AND can_id_mask m)
      then Some m else find_mapping_row ext_id cid ms)"

text \<open>
  \<^verbatim>\<open>find_config_can_addr_mapping\<close>. The two out-parameters are passed in with
  the values they hold at the call and returned with the values they hold afterwards; the
  callers pass non-null pointers.
\<close>

definition find_config_can_addr_mapping ::
  "config_can_addr_mapping list option \<Rightarrow> bool \<Rightarrow> guint32 \<Rightarrow> guint32 \<Rightarrow> guint32
     \<Rightarrow> guint8 \<times> guint32 \<times> guint32" where
  "find_config_can_addr_mapping mappings ext_id cid source_addr target_addr =
     (case mappings of
        None \<Rightarrow> (0, source_addr, target_addr)
      | Some ms \<Rightarrow>
          (case find_mapping_row ext_id cid ms of
             None \<Rightarrow> (0, source_addr, target_addr)
           | Some tmp \<Rightarrow>
               if ecu_addr_mask tmp \<noteq> 0
               then (1, masked_guint32_value cid (ecu_addr_mask tmp),
                        masked_guint32_value cid (ecu_addr_mask tmp))
               else if source_addr_mask tmp \<noteq> 0 \<and> target_addr_mask tmp \<noteq> 0
               then (2, masked_guint32_value cid (source_addr_mask tmp),
                        masked_guint32_value cid (target_addr_mask tmp))
               else (0, source_addr, target_addr)))"

subsection \<open>Addresses of PDU Transport\<close>

fun find_pdu_transport_config ::
  "config_pdu_transport_config list \<Rightarrow> guint32 \<Rightarrow> config_pdu_transport_config option" where
  "find_pdu_transport_config [] pid = None"
| "find_pdu_transport_config (c # cs) pid =
     (if pdu_id c = pid then Some c else find_pdu_transport_config cs pid)"

text \<open>
  \<^verbatim>\<open>handle_pdu_transport_addresses\<close> with \<open>offset_orig = 0\<close>: the number of
  prefix bytes consumed and the updated data, or the exception of a failed read.
\<close>

definition handle_pdu_transport_addresses ::
  "config_pdu_transport_config list \<Rightarrow> tvbuff \<Rightarrow> guint32 \<Rightarrow> iso15765_info
     \<Rightarrow> exn + (guint32 \<times> iso15765_info)" where
  "handle_pdu_transport_addresses items tvb pid iso15765data =
     (let d0 = iso15765data\<lparr>number_of_addresses_valid := 0,
                            source_address := 0xffffffff, target_address := 0xffffffff\<rparr>
      in case find_pdu_transport_config items pid of
           None \<Rightarrow> Inr (0, d0)
         | Some config \<Rightarrow>
             if ecu_address_size config \<noteq> 0 then
               (case proto_tree_add_item_ret_uint tvb 0 (sint (ecu_address_size config)) of
                  Inl e \<Rightarrow> Inl e
                | Inr tmp \<Rightarrow>
                    Inr (ecu_address_size config,
                         d0\<lparr>number_of_addresses_valid := 1,
                            source_address := tmp, target_address := tmp\<rparr>))
             else if ecu_address_fixed config \<noteq> ISO15765_ADDR_INVALID then
               Inr (0, d0\<lparr>number_of_addresses_valid := 1,
                          source_address := ecu_address_fixed config,
                          target_address := ecu_address_fixed config\<rparr>)
             else if source_address_size config = 0
                     \<and> source_address_fixed config = ISO15765_ADDR_INVALID
                     \<and> target_address_size config = 0
                     \<and> target_address_fixed config = ISO15765_ADDR_INVALID then
               Inr (0, d0)
             else
               (let d2 = d0\<lparr>number_of_addresses_valid := 2\<rparr> in
                case (if source_address_size config \<noteq> 0
                      then (case proto_tree_add_item_ret_uint tvb 0
                                   (sint (source_address_size config)) of
                              Inl e \<Rightarrow> Inl e
                            | Inr tmp \<Rightarrow>
                                Inr (source_address_size config, d2\<lparr>source_address := tmp\<rparr>))
                      else if source_address_fixed config \<noteq> ISO15765_ADDR_INVALID
                      then Inr (0, d2\<lparr>source_address := source_address_fixed config\<rparr>)
                      else Inr (0, d2)) of
                  Inl e \<Rightarrow> Inl e
                | Inr (offset, d3) \<Rightarrow>
                    if target_address_size config \<noteq> 0
                    then (case proto_tree_add_item_ret_uint tvb (unat offset)
                                 (sint (target_address_size config)) of
                            Inl e \<Rightarrow> Inl e
                          | Inr tmp \<Rightarrow>
                              Inr (offset + target_address_size config,
                                   d3\<lparr>target_address := tmp\<rparr>))
                    else if target_address_fixed config \<noteq> ISO15765_ADDR_INVALID
                    then Inr (offset, d3\<lparr>target_address := target_address_fixed config\<rparr>)
                    else Inr (offset, d3)))"

text \<open>Lines 615 and 616: the identifier width and the identifier of a CAN frame.\<close>

definition can_ext_id :: "guint32 \<Rightarrow> bool" where
  "can_ext_id frame_id = ((CAN_EFF_FLAG AND frame_id) = CAN_EFF_FLAG)"

definition can_id_of :: "guint32 \<Rightarrow> guint32" where
  "can_id_of frame_id =
     (if can_ext_id frame_id then frame_id AND CAN_EFF_MASK else frame_id AND CAN_SFF_MASK)"

subsection \<open>Address resolution of \<^verbatim>\<open>dissect_iso15765\<close>\<close>

text \<open>
  Lines 558 and 583 to 620: the prefix length \<open>ae\<close> and the address fields of
  \<open>iso15765data\<close>. \<open>iso15765data\<close> is an automatic variable without initialiser:
  the argument \<open>stack\<close> stands for whatever it holds on entry.
\<close>

definition resolve_addresses ::
  "prefs \<Rightarrow> tvbuff \<Rightarrow> iso15765_bus \<Rightarrow> guint32 \<Rightarrow> iso15765_info \<Rightarrow> exn + (guint8 \<times> iso15765_info)" where
  "resolve_addresses cfg tvb bus_type frame_id stack =
     (let ae0 = (if addressing cfg = NORMAL_ADDRESSING \<and> bus_type \<noteq> ISO15765_TYPE_LIN
                 then 0 else 1 :: guint8);
          d = stack\<lparr>data_bus_type := bus_type, data_id := frame_id,
                    number_of_addresses_valid := 0\<rparr>
      in
      if bus_type = ISO15765_TYPE_FLEXRAY then
        (case proto_tree_add_item_ret_uint tvb 0 (sint (flexray_addressing cfg)) of
           Inl e \<Rightarrow> Inl e
         | Inr s \<Rightarrow>
             (case proto_tree_add_item_ret_uint tvb (unat (flexray_addressing cfg))
                     (sint (flexray_addressing cfg)) of
                Inl e \<Rightarrow> Inl e
              | Inr t \<Rightarrow>
                  Inr (ucast (2 * flexray_addressing cfg),
                       d\<lparr>source_address := ucast (ucast s :: guint16),
                         target_address := ucast (ucast t :: guint16),
                         number_of_addresses_valid := 2\<rparr>)))
      else if bus_type = ISO15765_TYPE_IPDUM \<and> 0 <s ipdum_addressing cfg then
        (case proto_tree_add_item_ret_uint tvb 0 (sint (ipdum_addressing cfg)) of
           Inl e \<Rightarrow> Inl e
         | Inr s \<Rightarrow>
             (case proto_tree_add_item_ret_uint tvb (unat (ipdum_addressing cfg))
                     (sint (ipdum_addressing cfg)) of
                Inl e \<Rightarrow> Inl e
              | Inr t \<Rightarrow>
                  Inr (ucast (2 * ipdum_addressing cfg),
                       d\<lparr>source_address := ucast (ucast s :: guint16),
                         target_address := ucast (ucast t :: guint16),
                         number_of_addresses_valid := 2\<rparr>)))
      else if bus_type = ISO15765_TYPE_PDU_TRANSPORT then
        (case handle_pdu_transport_addresses (config_pdu_transport_config_items cfg)
                tvb frame_id d of
           Inl e \<Rightarrow> Inl e
         | Inr (n, d') \<Rightarrow> Inr (ucast n, d'))
      else if ae0 \<noteq> 0 then
        (case proto_tree_add_item_ret_uint tvb 0 (uint ae0) of
           Inl e \<Rightarrow> Inl e
         | Inr tmp \<Rightarrow>
             Inr (ae0, d\<lparr>number_of_addresses_valid := 1,
                         source_address := ucast (ucast tmp :: guint16),
                         target_address := ucast (ucast tmp :: guint16)\<rparr>))
      else if bus_type = ISO15765_TYPE_CAN \<or> bus_type = ISO15765_TYPE_CAN_FD then
        (let (n, s, t) = find_config_can_addr_mapping (config_can_addr_mappings cfg)
                           (can_ext_id frame_id) (can_id_of frame_id)
                           (source_address d) (target_address d)
         in Inr (ae0, d\<lparr>number_of_addresses_valid := n, source_address := s,
                        target_address := t\<rparr>))
      else Inr (ae0, d))"

subsection \<open>Per-packet and per-message records\<close>

text \<open>\<^verbatim>\<open>iso15765_identifier_t\<close>: the assignment cached with each packet.\<close>

record iso15765_identifier =
  ident_id :: guint32
  ident_seq :: guint32
  ident_frag_id :: guint16
  ident_last :: bool

text \<open>\<^verbatim>\<open>iso15765_frame_t\<close>: the state of one segmented message.\<close>

record iso15765_frame =
  frame_seq :: guint32
  frame_offset :: guint32
  frame_len :: guint32
  frame_error :: bool
  frame_complete :: bool
  last_frag_id :: guint16
  frag_id_high :: "guint8 list"

text \<open>\<^verbatim>\<open>wmem_new0\<close>: all fields zero.\<close>

definition new_identifier :: "guint32 \<Rightarrow> iso15765_identifier" where
  "new_identifier frame_id =
     \<lparr>ident_id = frame_id, ident_seq = 0, ident_frag_id = 0, ident_last = False\<rparr>"

definition new_frame :: "guint32 \<Rightarrow> guint32 \<Rightarrow> iso15765_frame" where
  "new_frame s full_len =
     \<lparr>frame_seq = s, frame_offset = 0, frame_len = full_len, frame_error = False,
      frame_complete = False, last_frag_id = 0, frag_id_high = replicate 16 0\<rparr>"

text \<open>What the dissector reads of \<^verbatim>\<open>packet_info\<close>.\<close>

record packet_info =
  pinfo_num :: nat
  pinfo_visited :: bool

text \<open>
  The mutable state: the static counter \<^verbatim>\<open>msg_seqid\<close>, the frame table keyed by
  sequence id, the per-packet data (\<^verbatim>\<open>p_get_proto_data\<close>, keyed by frame number) and
  the reassembly table, whose content belongs to the reassembly routines.
\<close>

record 'r iso15765_state =
  msg_seqid :: guint32
  iso15765_frame_table :: "guint32 \<rightharpoonup> iso15765_frame"
  proto_data :: "nat \<rightharpoonup> iso15765_identifier"
  iso15765_reassembly_table :: 'r

subsection \<open>The PCI switch\<close>

text \<open>The \<^verbatim>\<open>Save information\<close> step a case of the switch asks for.\<close>

datatype save_information = NoSave | SaveFirstFrame guint32 | SaveConsecutiveFrame

text \<open>The local variables the switch leaves behind.\<close>

record pci_locals =
  l_offset :: guint32
  l_data_length :: guint32
  l_frag_id_low :: guint16
  l_fragmented :: bool
  l_next_tvb :: "tvbuff option"
  l_complete :: bool
  l_save :: save_information

text \<open>The FlexRay segment size limit applied to first and consecutive frames.\<close>

definition segment_size_limit ::
  "prefs \<Rightarrow> iso15765_bus \<Rightarrow> guint8 \<Rightarrow> guint32 \<Rightarrow> guint32 \<Rightarrow> guint32" where
  "segment_size_limit cfg bus_type ae offset data_length =
     (if bus_type = ISO15765_TYPE_FLEXRAY \<and> flexray_segment_size_limit cfg \<noteq> 0
         \<and> data_length > flexray_segment_size_limit cfg - (offset - ucast ae)
      then flexray_segment_size_limit cfg - (offset - ucast ae)
      else data_length)"

text \<open>
  Lines 626 to 787. \<open>None\<close> is the default case (bad message type), which returns at
  once. \<open>data_length\<close> is kept as the 32-bit pattern of the \<^verbatim>\<open>gint32\<close>. Flow control
  assigns no offset; it is not read afterwards and stands as 0 here.
\<close>

definition dissect_pci ::
  "prefs \<Rightarrow> tvbuff \<Rightarrow> iso15765_bus \<Rightarrow> guint32 \<Rightarrow> guint8 \<Rightarrow> guint16 \<Rightarrow> exn + pci_locals option" where
  "dissect_pci cfg tvb bus_type frame_length ae pci =
     (let message_type = masked_guint16_value pci 0xF0;
          a = (ucast ae :: guint32)
      in
      if message_type = 0 then
        (if frame_length > 8 \<and> pci AND 0x0F = 0 then
           (case tvb_get_guint8 tvb (unat ae + 1) of
              Inl e \<Rightarrow> Inl e
            | Inr b \<Rightarrow>
                Inr (Some \<lparr>l_offset = a + 2, l_data_length = ucast b, l_frag_id_low = 0,
                           l_fragmented = False,
                           l_next_tvb = Some (tvb_new_subset_length tvb (a + 2) (ucast b)),
                           l_complete = True, l_save = NoSave\<rparr>))
         else
           Inr (Some \<lparr>l_offset = a + 1,
                      l_data_length = ucast (masked_guint16_value pci 0x0F),
                      l_frag_id_low = 0, l_fragmented = False,
                      l_next_tvb = Some (tvb_new_subset_length tvb (a + 1)
                                          (ucast (masked_guint16_value pci 0x0F))),
                      l_complete = True, l_save = NoSave\<rparr>))
      else if message_type = 1 then
        (case tvb_get_guint16 tvb (unat ae) of
           Inl e \<Rightarrow> Inl e
         | Inr pci16 \<Rightarrow>
             (case (if pci16 = 0x1000
                    then (case tvb_get_guint32 tvb (unat ae + 2) of
                            Inl e \<Rightarrow> Inl e
                          | Inr full_len \<Rightarrow> Inr (full_len, a + 2 + 4))
                    else Inr (ucast pci16 AND 0xFFF, a + 2)) of
                Inl e \<Rightarrow> Inl e
              | Inr (full_len, offset) \<Rightarrow>
                  Inr (Some \<lparr>l_offset = offset,
                             l_data_length = segment_size_limit cfg bus_type ae offset
                                               (tvb_reported_length tvb - offset),
                             l_frag_id_low = 0, l_fragmented = True, l_next_tvb = None,
                             l_complete = False, l_save = SaveFirstFrame full_len\<rparr>)))
      else if message_type = 6 \<or> message_type = 2 then
        Inr (Some \<lparr>l_offset = a + 1,
                   l_data_length = segment_size_limit cfg bus_type ae (a + 1)
                                     (tvb_reported_length tvb - (a + 1)),
                   l_frag_id_low = masked_guint16_value pci 0x0F,
                   l_fragmented = True, l_next_tvb = None, l_complete = False,
                   l_save = SaveConsecutiveFrame\<rparr>)
      else if message_type = 7 \<or> message_type = 3 then
        (if unat ae + (if message_type = 7 then 4 else 3) \<le> length tvb
         then Inr (Some \<lparr>l_offset = (if message_type = 7 then a + 3 else 0),
                         l_data_length = 0, l_frag_id_low = 0, l_fragmented = False,
                         l_next_tvb = None, l_complete = False, l_save = NoSave\<rparr>)
         else Inl BoundsError)
      else if message_type = 4 then
        (case tvb_get_guint8 tvb (unat ae + 1) of
           Inl e \<Rightarrow> Inl e
         | Inr b \<Rightarrow>
             Inr (Some \<lparr>l_offset = a + 2, l_data_length = ucast b, l_frag_id_low = 0,
                        l_fragmented = False,
                        l_next_tvb = Some (tvb_new_subset_length tvb (a + 2) (ucast b)),
                        l_complete = True, l_save = NoSave\<rparr>))
      else if message_type = 5 then
        (case tvb_get_guint32 tvb (unat ae + 1) of
           Inl e \<Rightarrow> Inl e
         | Inr full_len \<Rightarrow>
             Inr (Some \<lparr>l_offset = a + 1 + 4,
                        l_data_length = segment_size_limit cfg bus_type ae (a + 1 + 4)
                                          (tvb_reported_length tvb - (a + 1 + 4)),
                        l_frag_id_low = 0, l_fragmented = True, l_next_tvb = None,
                        l_complete = False, l_save = SaveFirstFrame full_len\<rparr>))
      else Inr None)"

text \<open>
  The \<^verbatim>\<open>Save information\<close> blocks of the first and consecutive frame cases: on the
  first pass a first frame allocates the next sequence id and a zeroed frame entry, a
  consecutive frame takes the current value of the counter.
\<close>

definition save_info ::
  "'r iso15765_state \<Rightarrow> packet_info \<Rightarrow> iso15765_identifier \<Rightarrow> save_information
     \<Rightarrow> 'r iso15765_state \<times> iso15765_identifier" where
  "save_info st pinfo info sv =
     (if pinfo_visited pinfo then (st, info)
      else case sv of
             NoSave \<Rightarrow> (st, info)
           | SaveFirstFrame full_len \<Rightarrow>
               (st\<lparr>msg_seqid := msg_seqid st + 1,
                   iso15765_frame_table :=
                     (iso15765_frame_table st)
                       (msg_seqid st + 1 \<mapsto> new_frame (msg_seqid st + 1) full_len)\<rparr>,
                info\<lparr>ident_seq := msg_seqid st + 1\<rparr>)
           | SaveConsecutiveFrame \<Rightarrow> (st, info\<lparr>ident_seq := msg_seqid st\<rparr>))"

text \<open>
  Lines 790 to 793: formatting the payload for the info column reads \<open>data_length\<close>
  bytes at \<open>offset\<close> and raises when they are not there.
\<close>

definition show_data_ok :: "tvbuff \<Rightarrow> pci_locals \<Rightarrow> bool" where
  "show_data_ok tvb l =
     (if 0 <s l_data_length l then unat (l_offset l) + unat (l_data_length l) \<le> length tvb
      else True)"

subsection \<open>Segmentation bookkeeping\<close>

text \<open>
  Lines 805 to 818, first pass only: the expanded fragment id from the counter of the low
  id, and the window check. The counter is stored before the second assertion looks at it.
\<close>

definition expand_frag_id ::
  "guint32 \<Rightarrow> guint16 \<Rightarrow> iso15765_identifier \<Rightarrow> iso15765_frame
     \<Rightarrow> iso15765_frame \<times> (exn + iso15765_identifier)" where
  "expand_frag_id win frag_id_low info frame =
     (if \<not> frag_id_low < 16 then (frame, Inl DissectorBug)
      else
        let i = unat frag_id_low;
            tmp = (ucast (frag_id_high frame ! i) :: guint16);
            frame1 = frame\<lparr>frag_id_high := (frag_id_high frame)[i := frag_id_high frame ! i + 1]\<rparr>
        in if frag_id_high frame1 ! i = 0 then (frame1, Inl DissectorBug)
           else
             let info1 = info\<lparr>ident_frag_id := frag_id_low + tmp * 16\<rparr>
             in if (ucast (ident_frag_id info1) :: guint32) + win < ucast (last_frag_id frame1)
                then (frame1\<lparr>frame_error := True\<rparr>, Inr info1)
                else (frame1, Inr info1))"

text \<open>
  Lines 827 to 839, first pass only: the highest fragment id, the accumulated bytes, and
  the trimmed length of the fragment that completes the message.
\<close>

definition accumulate ::
  "guint16 \<Rightarrow> guint32 \<Rightarrow> iso15765_identifier \<Rightarrow> iso15765_frame
     \<Rightarrow> iso15765_frame \<times> iso15765_identifier \<times> guint32" where
  "accumulate frag_id data_length info frame =
     (let frame1 = (if frag_id > last_frag_id frame then frame\<lparr>last_frag_id := frag_id\<rparr>
                    else frame);
          frame2 = frame1\<lparr>frame_offset := frame_offset frame1 + data_length\<rparr>
      in if frame_offset frame2 \<ge> frame_len frame2
         then (frame2\<lparr>frame_complete := True\<rparr>, info\<lparr>ident_last := True\<rparr>,
               data_length - (frame_offset frame2 - frame_len frame2))
         else (frame2, info, data_length))"

text \<open>The arguments of one call of \<^verbatim>\<open>fragment_add_seq_check\<close>.\<close>

record fragment_add =
  fa_tvb :: tvbuff
  fa_offset :: guint32
  fa_pinfo :: packet_info
  fa_id :: guint32
  fa_frag_number :: guint16
  fa_frag_data_len :: guint32
  fa_more_frags :: bool

text \<open>
  What one call of the dissector leaves behind: the packet's cached identifier, the
  fragment handed to reassembly (if any), the buffer handed to the next dissector with the
  \<open>complete\<close> flag and the address data (if any), and the exception raised (if any).
  With \<open>complete\<close> the payload dissector table is tried first, without it the buffer goes
  to the data dissector.
\<close>

record dissect_result =
  res_ident :: iso15765_identifier
  res_fragment :: "fragment_add option"
  res_next :: "(bool \<times> tvbuff \<times> iso15765_info) option"
  res_exn :: "exn option"

definition store_ident ::
  "'r iso15765_state \<Rightarrow> packet_info \<Rightarrow> iso15765_identifier \<Rightarrow> 'r iso15765_state" where
  "store_ident st pinfo info = st\<lparr>proto_data := (proto_data st)(pinfo_num pinfo \<mapsto> info)\<rparr>"

definition store_frame ::
  "'r iso15765_state \<Rightarrow> guint32 \<Rightarrow> iso15765_frame \<Rightarrow> 'r iso15765_state" where
  "store_frame st s frame =
     st\<lparr>iso15765_frame_table := (iso15765_frame_table st)(s \<mapsto> frame)\<rparr>"

text \<open>
  Lines 795 to 865. The reassembly routines (epan/reassemble.c) are a parameter:
  \<open>reassemble\<close> stands for \<^verbatim>\<open>fragment_add_seq_check\<close> followed by
  \<^verbatim>\<open>process_reassembled_data\<close>, from the reassembly table and the arguments of the call
  to the new table and either an exception or the reassembled buffer, if this packet
  completes one. The result is the state, the identifier, the call made, and either an
  exception or the locals \<open>next_tvb\<close> and \<open>complete\<close>.
\<close>

definition reassemble_fragment ::
  "prefs \<Rightarrow> ('r \<Rightarrow> fragment_add \<Rightarrow> 'r \<times> (exn + tvbuff option)) \<Rightarrow> tvbuff \<Rightarrow> packet_info
     \<Rightarrow> pci_locals \<Rightarrow> 'r iso15765_state \<Rightarrow> iso15765_identifier
     \<Rightarrow> 'r iso15765_state \<times> iso15765_identifier \<times> fragment_add option
         \<times> (exn + (tvbuff option \<times> bool))" where
  "reassemble_fragment cfg reassemble tvb pinfo l st info =
     (case iso15765_frame_table st (ident_seq info) of
        None \<Rightarrow> (st, info, None, Inr (l_next_tvb l, l_complete l))
      | Some frame \<Rightarrow>
          (case (if \<not> pinfo_visited pinfo
                 then expand_frag_id (window cfg) (l_frag_id_low l) info frame
                 else (frame, Inr info)) of
             (frame1, Inl e) \<Rightarrow> (store_frame st (ident_seq info) frame1, info, None, Inl e)
           | (frame1, Inr info1) \<Rightarrow>
               if frame_error frame1 then
                 (store_frame st (ident_seq info) frame1, info1, None,
                  Inr (Some (tvb_new_subset_length tvb (l_offset l) (l_data_length l)),
                       l_complete l))
               else
                 let frag_id = (if \<not> pinfo_visited pinfo then ident_frag_id info1
                                else l_frag_id_low l);
                     (frame2, info2, len) =
                       (if \<not> pinfo_visited pinfo
                        then accumulate frag_id (l_data_length l) info1 frame1
                        else (frame1, info1, l_data_length l));
                     call = \<lparr>fa_tvb = tvb, fa_offset = l_offset l, fa_pinfo = pinfo,
                             fa_id = ident_seq info2, fa_frag_number = ident_frag_id info2,
                             fa_frag_data_len = len, fa_more_frags = (\<not> ident_last info2)\<rparr>;
                     st1 = store_frame st (ident_seq info) frame2;
                     (rt, r) = reassemble (iso15765_reassembly_table st1) call;
                     st2 = st1\<lparr>iso15765_reassembly_table := rt\<rparr>
                 in case r of
                      Inl e \<Rightarrow> (st2, info2, Some call, Inl e)
                    | Inr (Some new_tvb) \<Rightarrow> (st2, info2, Some call, Inr (Some new_tvb, True))
                    | Inr None \<Rightarrow>
                        (st2, info2, Some call,
                         Inr (Some (tvb_new_subset_length tvb (l_offset l) (l_data_length l)),
                              l_complete l))))"

subsection \<open>\<^verbatim>\<open>dissect_iso15765\<close>\<close>

definition thrown :: "iso15765_identifier \<Rightarrow> fragment_add option \<Rightarrow> exn \<Rightarrow> dissect_result" where
  "thrown info call e =
     \<lparr>res_ident = info, res_fragment = call, res_next = None, res_exn = Some e\<rparr>"

text \<open>Lines 867 to 873: the hand-over to the next dissector.\<close>

definition hand_over ::
  "iso15765_identifier \<Rightarrow> fragment_add option \<Rightarrow> tvbuff option \<Rightarrow> bool \<Rightarrow> iso15765_info
     \<Rightarrow> guint32 \<Rightarrow> dissect_result" where
  "hand_over info call next_tvb complete iso15765data frame_length =
     \<lparr>res_ident = info, res_fragment = call,
      res_next = (case next_tvb of
                    None \<Rightarrow> None
                  | Some t \<Rightarrow> Some (complete, t, iso15765data\<lparr>data_len := frame_length\<rparr>)),
      res_exn = None\<rparr>"

text \<open>
  Lines 583 to 787 without the \<^verbatim>\<open>Save information\<close> blocks: the address data and
  the locals of the switch, \<open>None\<close> for a bad message type, or the exception of a failed
  read. Every read of the switch comes before the block that saves.
\<close>

definition parse_frame ::
  "prefs \<Rightarrow> iso15765_info \<Rightarrow> tvbuff \<Rightarrow> iso15765_bus \<Rightarrow> guint32 \<Rightarrow> guint32
     \<Rightarrow> exn + (iso15765_info \<times> pci_locals) option" where
  "parse_frame cfg stack tvb bus_type frame_id frame_length =
     (case resolve_addresses cfg tvb bus_type frame_id stack of
        Inl e \<Rightarrow> Inl e
      | Inr (ae, iso15765data) \<Rightarrow>
          (case tvb_get_guint8 tvb (unat ae) of
             Inl e \<Rightarrow> Inl e
           | Inr pci \<Rightarrow>
               (case dissect_pci cfg tvb bus_type frame_length ae (ucast pci) of
                  Inl e \<Rightarrow> Inl e
                | Inr None \<Rightarrow> Inr None
                | Inr (Some l) \<Rightarrow> Inr (Some (iso15765data, l)))))"

text \<open>Lines 571 to 578: the packet's identifier, created zeroed when it has none.\<close>

definition get_ident :: "'r iso15765_state \<Rightarrow> packet_info \<Rightarrow> guint32 \<Rightarrow> iso15765_identifier" where
  "get_ident st pinfo frame_id =
     (case proto_data st (pinfo_num pinfo) of
        Some i \<Rightarrow> i
      | None \<Rightarrow> new_identifier frame_id)"

definition dissect_iso15765 ::
  "prefs \<Rightarrow> ('r \<Rightarrow> fragment_add \<Rightarrow> 'r \<times> (exn + tvbuff option)) \<Rightarrow> iso15765_info
     \<Rightarrow> 'r iso15765_state \<Rightarrow> tvbuff \<Rightarrow> packet_info \<Rightarrow> iso15765_bus \<Rightarrow> guint32 \<Rightarrow> guint32
     \<Rightarrow> 'r iso15765_state \<times> dissect_result" where
  "dissect_iso15765 cfg reassemble stack st tvb pinfo bus_type frame_id frame_length =
     (let info0 = get_ident st pinfo frame_id;
          st0 = store_ident st pinfo info0
      in case parse_frame cfg stack tvb bus_type frame_id frame_length of
           Inl e \<Rightarrow> (st0, thrown info0 None e)
         | Inr None \<Rightarrow>
             (st0, \<lparr>res_ident = info0, res_fragment = None, res_next = None, res_exn = None\<rparr>)
         | Inr (Some (iso15765data, l)) \<Rightarrow>
             (case save_info st0 pinfo info0 (l_save l) of
                (st1, info1) \<Rightarrow>
                  if \<not> show_data_ok tvb l
                  then (store_ident st1 pinfo info1, thrown info1 None BoundsError)
                  else if l_fragmented l then
                    (case reassemble_fragment cfg reassemble tvb pinfo l st1 info1 of
                       (st2, info2, call, Inl e) \<Rightarrow>
                         (store_ident st2 pinfo info2, thrown info2 call e)
                     | (st2, info2, call, Inr (next_tvb, complete)) \<Rightarrow>
                         (store_ident st2 pinfo info2,
                          hand_over info2 call next_tvb complete iso15765data frame_length))
                  else
                    (store_ident st1 pinfo info1,
                     hand_over info1 None (l_next_tvb l) (l_complete l) iso15765data
                       frame_length)))"

subsection \<open>Streams of frames\<close>

text \<open>
  One link frame as an entry point hands it to \<^verbatim>\<open>dissect_iso15765\<close>, and a pass
  over an ordered stream: the frames are numbered from \<open>n\<close> and dissected one after the
  other; \<open>v\<close> is their \<^verbatim>\<open>visited\<close> flag (false on the first pass, true on a replay). An
  exception ends the dissection of its frame only.
\<close>

record link_frame =
  lf_tvb :: tvbuff
  lf_bus_type :: iso15765_bus
  lf_frame_id :: guint32
  lf_frame_length :: guint32

fun dissect_stream ::
  "prefs \<Rightarrow> ('r \<Rightarrow> fragment_add \<Rightarrow> 'r \<times> (exn + tvbuff option)) \<Rightarrow> iso15765_info \<Rightarrow> bool
     \<Rightarrow> nat \<Rightarrow> 'r iso15765_state \<Rightarrow> link_frame list
     \<Rightarrow> 'r iso15765_state \<times> dissect_result list" where
  "dissect_stream cfg reassemble stack v n st [] = (st, [])"
| "dissect_stream cfg reassemble stack v n st (f # fs) =
     (case dissect_iso15765 cfg reassemble stack st (lf_tvb f)
             \<lparr>pinfo_num = n, pinfo_visited = v\<rparr> (lf_bus_type f) (lf_frame_id f)
             (lf_frame_length f) of
        (st1, r) \<Rightarrow>
          (case dissect_stream cfg reassemble stack v (Suc n) st1 fs of
             (st2, rs) \<Rightarrow> (st2, r # rs)))"

text \<open>
  How a frame is classified, for the statements below. \<open>first_frame\<close>: the frame
  reaches the segmentation bookkeeping as a first frame, and gives the declared length and
  the length of the payload it carries. \<open>consecutive_frame\<close>: the frame reaches the
  bookkeeping as a consecutive frame, and gives its sequence nibble and payload length.
\<close>

definition first_frame ::
  "prefs \<Rightarrow> iso15765_info \<Rightarrow> link_frame \<Rightarrow> (guint32 \<times> guint32) option" where
  "first_frame cfg stack f =
     (case parse_frame cfg stack (lf_tvb f) (lf_bus_type f) (lf_frame_id f) (lf_frame_length f) of
        Inr (Some (d, l)) \<Rightarrow>
          (case l_save l of
             SaveFirstFrame full_len \<Rightarrow>
               if l_fragmented l \<and> show_data_ok (lf_tvb f) l
               then Some (full_len, l_data_length l) else None
           | _ \<Rightarrow> None)
      | _ \<Rightarrow> None)"

definition consecutive_frame ::
  "prefs \<Rightarrow> iso15765_info \<Rightarrow> link_frame \<Rightarrow> (guint16 \<times> guint32) option" where
  "consecutive_frame cfg stack f =
     (case parse_frame cfg stack (lf_tvb f) (lf_bus_type f) (lf_frame_id f) (lf_frame_length f) of
        Inr (Some (d, l)) \<Rightarrow>
          (if l_save l = SaveConsecutiveFrame \<and> l_fragmented l \<and> show_data_ok (lf_tvb f) l
           then Some (l_frag_id_low l, l_data_length l) else None)
      | _ \<Rightarrow> None)"

text \<open>
  The frame entry of a message after a first-pass fragment with low id \<open>n\<close> and payload
  length \<open>dl\<close>, as the block of lines 804 to 839 leaves it: the counter is stepped by
  \<open>expand_frag_id\<close>; unless an assertion fails or the message is in error, the
  bytes are accumulated.
\<close>

definition frame_after :: "guint32 \<Rightarrow> guint16 \<Rightarrow> guint32 \<Rightarrow> iso15765_frame \<Rightarrow> iso15765_frame" where
  "frame_after win n dl frame =
     (case expand_frag_id win n (new_identifier 0) frame of
        (frame1, Inl e) \<Rightarrow> frame1
      | (frame1, Inr info1) \<Rightarrow>
          if frame_error frame1 then frame1
          else fst (accumulate (ident_frag_id info1) dl info1 frame1))"

text \<open>
  The expansion of sequence nibbles as the specification words it: the nibble plus 16
  times the number of prior occurrences of that nibble in the message. \<open>seen\<close> holds the
  low ids of the fragments so far.
\<close>

fun spec_expanded_ids :: "guint16 list \<Rightarrow> guint16 list \<Rightarrow> nat list" where
  "spec_expanded_ids seen [] = []"
| "spec_expanded_ids seen (n # ns) =
     (unat n + 16 * count_list seen n) # spec_expanded_ids (seen @ [n]) ns"

text \<open>
  The window check as the specification words it, with the comparison turned the way line
  815 has it. \<open>ids\<close> are the expanded fragment ids of a message in the order of its
  fragments. The highest id seen is the maximum of the ids so far (0 before any). Fragment
  \<open>i\<close> lags when its id plus the window, in the 32-bit arithmetic of the comparison, is
  below the highest id seen before it. Fragment \<open>j\<close> is dropped when it or a fragment
  before it lags.
\<close>

definition spec_highest_seen :: "nat list \<Rightarrow> nat" where
  "spec_highest_seen ids = fold max ids 0"

definition spec_lags :: "guint32 \<Rightarrow> nat list \<Rightarrow> nat \<Rightarrow> bool" where
  "spec_lags win ids i
     = ((of_nat (ids ! i) :: guint32) + win < of_nat (spec_highest_seen (take i ids)))"

definition spec_dropped :: "guint32 \<Rightarrow> nat list \<Rightarrow> nat \<Rightarrow> bool" where
  "spec_dropped win ids j = list_ex (spec_lags win ids) [0..<Suc j]"

subsection \<open>The reassembly routines\<close>

text \<open>
  Modelled from the spec: the generic fragment-reassembly collaborator
  (\<^verbatim>\<open>fragment_add_seq_check\<close> and \<^verbatim>\<open>process_reassembled_data\<close> of
  epan/reassemble.c, which is not among the sources at hand). It buffers the fragments of
  a sequence keyed by (sequence id, expanded fragment id), keeps the first fragment of a
  key, and on the fragment flagged terminal hands back the buffered payloads concatenated
  in the order of their fragment ids. On a replay it hands back what it produced for that
  frame on the first pass. The theorems about the dissector hold for every collaborator;
  this one serves the concrete examples.
\<close>

record reassembly_table =
  rt_fragments :: "(guint32 \<times> guint16 \<times> tvbuff) list"
  rt_reassembled :: "(nat \<times> guint32 \<times> tvbuff) list"

definition reassembly_routines ::
  "reassembly_table \<Rightarrow> fragment_add \<Rightarrow> reassembly_table \<times> (exn + tvbuff option)" where
  "reassembly_routines rt c =
     (if pinfo_visited (fa_pinfo c)
      then (rt, Inr (map_option snd
                       (map_of (map (\<lambda>(n, s, t). ((n, s), ((n, s), t))) (rt_reassembled rt))
                          (pinfo_num (fa_pinfo c), fa_id c))))
      else if length (fa_tvb c) < unat (fa_offset c) + unat (fa_frag_data_len c)
      then (rt, Inl BoundsError)
      else
        let payload = take (unat (fa_frag_data_len c)) (drop (unat (fa_offset c)) (fa_tvb c));
            held = (if (fa_id c, fa_frag_number c) \<in> set (map (\<lambda>(s, i, t). (s, i)) (rt_fragments rt))
                    then rt_fragments rt
                    else rt_fragments rt @ [(fa_id c, fa_frag_number c, payload)])
        in if fa_more_frags c then (rt\<lparr>rt_fragments := held\<rparr>, Inr None)
           else
             let whole = concat (map (\<lambda>(s, i, t). t)
                                  (sort_key (\<lambda>(s, i, t). i)
                                     (filter (\<lambda>(s, i, t). s = fa_id c) held)))
             in (\<lparr>rt_fragments = filter (\<lambda>(s, i, t). s \<noteq> fa_id c) held,
                  rt_reassembled = (pinfo_num (fa_pinfo c), fa_id c, whole) # rt_reassembled rt\<rparr>,
                 Inr (Some whole)))"

text \<open>
  What the modelled reassembly table holds under a sequence id: the fragment ids, in the
  order of arrival, and the number of payload bytes.
\<close>

definition held_ids :: "reassembly_table \<Rightarrow> guint32 \<Rightarrow> nat list" where
  "held_ids rt s = map (\<lambda>(s', i, t). unat i) (filter (\<lambda>(s', i, t). s' = s) (rt_fragments rt))"

definition held_bytes :: "reassembly_table \<Rightarrow> guint32 \<Rightarrow> nat" where
  "held_bytes rt s
     = sum_list (map (\<lambda>(s', i, t). length t) (filter (\<lambda>(s', i, t). s' = s) (rt_fragments rt)))"

subsection \<open>A session for the examples\<close>

text \<open>
  The default preferences (normal addressing, window 8 as declared, no mapping tables), a
  session that has seen no frame, and classic CAN frames.
\<close>

definition default_prefs :: prefs where
  "default_prefs =
     \<lparr>addressing = NORMAL_ADDRESSING, flexray_addressing = 1, flexray_segment_size_limit = 0,
      window = 8, ipdum_addressing = 0, config_can_addr_mappings = None,
      config_pdu_transport_config_items = []\<rparr>"

definition new_session :: "reassembly_table iso15765_state" where
  "new_session =
     \<lparr>msg_seqid = 0, iso15765_frame_table = Map.empty, proto_data = Map.empty,
      iso15765_reassembly_table = \<lparr>rt_fragments = [], rt_reassembled = []\<rparr>\<rparr>"

definition zero_stack :: iso15765_info where
  "zero_stack =
     \<lparr>data_bus_type = ISO15765_TYPE_CAN, data_id = 0, data_len = 0,
      number_of_addresses_valid = 0, source_address = 0, target_address = 0\<rparr>"

definition can_frame :: "guint32 \<Rightarrow> tvbuff \<Rightarrow> link_frame" where
  "can_frame ident bytes =
     \<lparr>lf_tvb = bytes, lf_bus_type = ISO15765_TYPE_CAN, lf_frame_id = ident,
      lf_frame_length = of_nat (length bytes)\<rparr>"

section \<open>Properties\<close>

subsection \<open>Auxiliary facts\<close>

lemma ws_ctz_0F: "ws_ctz 15 = 0"
  by code_simp

lemma ws_ctz_F0: "ws_ctz 240 = 4"
  by code_simp

lemma low_nibble16: "masked_guint16_value p 0x0F = p AND 0x0F"
  by (simp add: masked_guint16_value_def ws_ctz_0F)

lemma message_type16: "masked_guint16_value p 0xF0 = drop_bit 4 (p AND 0xF0)"
  by (simp add: masked_guint16_value_def ws_ctz_F0)

lemma unat_byte_less: "unat (b :: guint8) < 256"
  using unsigned_less [of b, where 'a = nat] by simp

lemma unat_byte32: "unat (ucast (b :: guint8) :: guint32) = unat b"
proof -
  have "unat b < 2 ^ 32" using unat_byte_less [of b] by simp
  then show ?thesis by (simp add: unsigned_ucast_eq take_bit_nat_eq_self)
qed

lemma unat_ae_plus:
  assumes "k < 1000"
  shows "unat ((ucast (ae :: guint8) :: guint32) + of_nat k) = unat ae + k"
proof -
  have "unat ae + k < 2 ^ 32" using assms unat_byte_less [of ae] by simp
  then show ?thesis
    by (simp add: unat_add_lem [THEN iffD1] unat_byte32 unat_of_nat)
qed

lemma unat_ae_1: "unat ((ucast (ae :: guint8) :: guint32) + 1) = unat ae + 1"
  using unat_ae_plus [of 1 ae] by simp

lemma unat_ae_2: "unat ((ucast (ae :: guint8) :: guint32) + 2) = unat ae + 2"
  using unat_ae_plus [of 2 ae] by simp

lemma find_mapping_row_matches:
  "find_mapping_row e c ms = Some r \<Longrightarrow>
     r \<in> set ms \<and> extended_address r = e \<and> (can_id r AND can_id_mask r) = (c AND can_id_mask r)"
  by (induction ms) (auto split: if_splits)

lemma sf_byte:
  "b \<in> {1, 2, 3, 4, 5, 6, 7} \<Longrightarrow>
     masked_guint16_value (ucast (b :: guint8)) 0xF0 = 0
     \<and> masked_guint16_value (ucast b) 0x0F = ucast b
     \<and> (ucast b :: guint16) AND 0x0F \<noteq> 0
     \<and> unat (ucast (ucast b :: guint16) :: guint32) = unat b"
  by (auto simp add: message_type16 low_nibble16)

lemma dissect_pci_single:
  assumes "masked_guint16_value pci 0xF0 = 0"
    and "\<not> (frame_length > 8 \<and> pci AND 0x0F = 0)"
  shows "dissect_pci cfg tvb bus_type frame_length ae pci =
     Inr (Some \<lparr>l_offset = ucast ae + 1,
                      l_data_length = ucast (masked_guint16_value pci 0x0F),
                      l_frag_id_low = 0, l_fragmented = False,
                      l_next_tvb = Some (tvb_new_subset_length tvb (ucast ae + 1)
                                          (ucast (masked_guint16_value pci 0x0F))),
                      l_complete = True, l_save = NoSave\<rparr>)"
  using assms by (auto simp add: dissect_pci_def Let_def)

lemma dissect_pci_single_fd:
  assumes "masked_guint16_value pci 0xF0 = 0"
    and "frame_length > 8" and "pci AND 0x0F = 0" and "unat ae + 1 < length tvb"
  shows "dissect_pci cfg tvb bus_type frame_length ae pci =
     Inr (Some \<lparr>l_offset = ucast ae + 2, l_data_length = ucast (tvb ! (unat ae + 1)),
                l_frag_id_low = 0, l_fragmented = False,
                l_next_tvb = Some (tvb_new_subset_length tvb (ucast ae + 2)
                                     (ucast (tvb ! (unat ae + 1)))),
                l_complete = True, l_save = NoSave\<rparr>)"
  using assms by (simp add: dissect_pci_def Let_def tvb_get_guint8_def)

lemma dissect_unfragmented:
  assumes "parse_frame cfg stack tvb bus_type frame_id frame_length = Inr (Some (d, l))"
    and "\<not> l_fragmented l" and "l_save l = NoSave" and "show_data_ok tvb l"
  shows "snd (dissect_iso15765 cfg reassemble stack st tvb pinfo bus_type frame_id frame_length)
         = hand_over (get_ident st pinfo frame_id) None (l_next_tvb l) (l_complete l) d frame_length"
  using assms by (simp add: dissect_iso15765_def Let_def save_info_def)

lemma resolve_default_can:
  "resolve_addresses default_prefs tvb ISO15765_TYPE_CAN ident stack
     = Inr (0, stack\<lparr>data_bus_type := ISO15765_TYPE_CAN, data_id := ident,
                      number_of_addresses_valid := 0\<rparr>)"
  by (simp add: resolve_addresses_def find_config_can_addr_mapping_def default_prefs_def)

subsection \<open>Facts about the bookkeeping\<close>

lemma expand_frag_id_error_kept:
  "frame_error fr \<Longrightarrow> frame_error (fst (expand_frag_id w n i fr))"
  by (simp add: expand_frag_id_def Let_def)

lemma expand_frag_id_fields:
  "frame_seq (fst (expand_frag_id w n i fr)) = frame_seq fr
   \<and> frame_offset (fst (expand_frag_id w n i fr)) = frame_offset fr
   \<and> frame_len (fst (expand_frag_id w n i fr)) = frame_len fr
   \<and> frame_complete (fst (expand_frag_id w n i fr)) = frame_complete fr
   \<and> last_frag_id (fst (expand_frag_id w n i fr)) = last_frag_id fr"
  by (simp add: expand_frag_id_def Let_def)

lemma expand_frag_id_high:
  "n < 16 \<Longrightarrow> frag_id_high (fst (expand_frag_id w n i fr))
     = (frag_id_high fr)[unat n := frag_id_high fr ! unat n + 1]"
  by (simp add: expand_frag_id_def Let_def)

lemma byte_succ_zero: "(c :: guint8) + 1 = 0 \<longleftrightarrow> c = 255"
proof
  assume "c + 1 = 0"
  then have "c = - 1" by (simp add: eq_neg_iff_add_eq_0)
  then show "c = 255" by simp
next
  assume "c = 255" then show "c + 1 = 0" by simp
qed

lemma expand_frag_id_ok:
  assumes "n < 16" and "unat n < length (frag_id_high fr)" and "frag_id_high fr ! unat n \<noteq> 255"
  shows "snd (expand_frag_id w n i fr)
           = Inr (i\<lparr>ident_frag_id := n + ucast (frag_id_high fr ! unat n) * 16\<rparr>)"
  using assms by (simp add: expand_frag_id_def Let_def byte_succ_zero)

lemma expand_frag_id_overflow:
  assumes "n < 16" and "unat n < length (frag_id_high fr)" and "frag_id_high fr ! unat n = 255"
  shows "expand_frag_id w n i fr
           = (fr\<lparr>frag_id_high := (frag_id_high fr)[unat n := 0]\<rparr>, Inl DissectorBug)"
proof -
  from assms(3) have "frag_id_high fr ! unat n + 1 = 0"
    by (simp only: byte_succ_zero)
  then show ?thesis
    using assms(1,2) by (simp add: expand_frag_id_def Let_def)
qed

lemma expand_frag_id_error:
  assumes "n < 16" and "unat n < length (frag_id_high fr)" and "frag_id_high fr ! unat n \<noteq> 255"
  shows "frame_error (fst (expand_frag_id w n i fr))
           = (frame_error fr
              \<or> ucast (n + ucast (frag_id_high fr ! unat n) * 16) + w < ucast (last_frag_id fr))"
  using assms by (simp add: expand_frag_id_def Let_def byte_succ_zero)

lemma accumulate_fields:
  "frame_seq (fst (accumulate g dl i fr)) = frame_seq fr
   \<and> frame_len (fst (accumulate g dl i fr)) = frame_len fr
   \<and> frame_error (fst (accumulate g dl i fr)) = frame_error fr
   \<and> frag_id_high (fst (accumulate g dl i fr)) = frag_id_high fr
   \<and> frame_offset (fst (accumulate g dl i fr)) = frame_offset fr + dl"
  by (simp add: accumulate_def Let_def)

lemma accumulate_ident:
  "ident_seq (fst (snd (accumulate g dl i fr))) = ident_seq i
   \<and> ident_frag_id (fst (snd (accumulate g dl i fr))) = ident_frag_id i
   \<and> ident_id (fst (snd (accumulate g dl i fr))) = ident_id i"
  by (simp add: accumulate_def Let_def)

lemma low_nibble_less: "masked_guint16_value p 0x0F < 16"
proof -
  have "p AND 0x0F \<le> 0x0F" by (rule word_and_le1)
  then show ?thesis by (simp add: low_nibble16) unat_arith
qed

lemma dissect_pci_fragmented:
  assumes "dissect_pci cfg tvb bus_type frame_length ae pci = Inr (Some l)"
  shows "l_fragmented l = (l_save l \<noteq> NoSave)"
    and "l_fragmented l \<Longrightarrow> l_next_tvb l = None \<and> \<not> l_complete l \<and> l_frag_id_low l < 16"
  using assms low_nibble_less [of pci]
  by (auto simp add: dissect_pci_def Let_def split: if_splits sum.splits prod.splits)


lemma store_ident_twice [simp]:
  "store_ident (store_ident st p i) p j = store_ident st p j"
  by (simp add: store_ident_def)

lemma store_ident_fields [simp]:
  "msg_seqid (store_ident st p i) = msg_seqid st"
  "iso15765_frame_table (store_ident st p i) = iso15765_frame_table st"
  "iso15765_reassembly_table (store_ident st p i) = iso15765_reassembly_table st"
  "proto_data (store_ident st p i) = (proto_data st)(pinfo_num p \<mapsto> i)"
  by (simp_all add: store_ident_def)

lemma store_frame_fields [simp]:
  "msg_seqid (store_frame st s fr) = msg_seqid st"
  "iso15765_frame_table (store_frame st s fr) = (iso15765_frame_table st)(s \<mapsto> fr)"
  "iso15765_reassembly_table (store_frame st s fr) = iso15765_reassembly_table st"
  "proto_data (store_frame st s fr) = proto_data st"
  by (simp_all add: store_frame_def)

lemma dissect_fragment:
  assumes "parse_frame cfg stack tvb bus_type frame_id frame_length = Inr (Some (d, l))"
    and "l_fragmented l" and "show_data_ok tvb l"
  shows "dissect_iso15765 cfg reassemble stack st tvb pinfo bus_type frame_id frame_length =
     (case save_info (store_ident st pinfo (get_ident st pinfo frame_id)) pinfo
             (get_ident st pinfo frame_id) (l_save l) of
        (st1, info1) \<Rightarrow>
          (case reassemble_fragment cfg reassemble tvb pinfo l st1 info1 of
             (st2, info2, call, Inl e) \<Rightarrow> (store_ident st2 pinfo info2, thrown info2 call e)
           | (st2, info2, call, Inr (next_tvb, complete)) \<Rightarrow>
               (store_ident st2 pinfo info2,
                hand_over info2 call next_tvb complete d frame_length)))"
  using assms by (simp add: dissect_iso15765_def Let_def split: prod.splits)

lemma consecutive_frameD:
  assumes "consecutive_frame cfg stack f = Some (n, dl)"
  obtains d l where
    "parse_frame cfg stack (lf_tvb f) (lf_bus_type f) (lf_frame_id f) (lf_frame_length f)
       = Inr (Some (d, l))"
    "l_save l = SaveConsecutiveFrame" "l_fragmented l" "show_data_ok (lf_tvb f) l"
    "l_frag_id_low l = n" "l_data_length l = dl" "l_next_tvb l = None" "\<not> l_complete l"
    "n < 16"
proof -
  from assms obtain d l where
    p: "parse_frame cfg stack (lf_tvb f) (lf_bus_type f) (lf_frame_id f) (lf_frame_length f)
       = Inr (Some (d, l))"
    and q: "l_save l = SaveConsecutiveFrame" "l_fragmented l" "show_data_ok (lf_tvb f) l"
    "l_frag_id_low l = n" "l_data_length l = dl"
    by (auto simp add: consecutive_frame_def split: sum.splits option.splits if_splits)
  from p obtain ae pci where
    "dissect_pci cfg (lf_tvb f) (lf_bus_type f) (lf_frame_length f) ae pci = Inr (Some l)"
    by (auto simp add: parse_frame_def split: sum.splits option.splits prod.splits)
  from dissect_pci_fragmented(2) [OF this q(2)] q(4)
  have "l_next_tvb l = None" "\<not> l_complete l" "n < 16" by simp_all
  with p q show ?thesis by (rule that)
qed


lemma save_info_consecutive:
  "\<not> pinfo_visited pinfo \<Longrightarrow>
     save_info st pinfo info SaveConsecutiveFrame = (st, info\<lparr>ident_seq := msg_seqid st\<rparr>)"
  by (simp add: save_info_def)

lemma save_info_first:
  "\<not> pinfo_visited pinfo \<Longrightarrow>
     save_info st pinfo info (SaveFirstFrame full_len)
       = (st\<lparr>msg_seqid := msg_seqid st + 1,
             iso15765_frame_table :=
               (iso15765_frame_table st)
                 (msg_seqid st + 1 \<mapsto> new_frame (msg_seqid st + 1) full_len)\<rparr>,
          info\<lparr>ident_seq := msg_seqid st + 1\<rparr>)"
  by (simp add: save_info_def)

lemma save_info_visited:
  "pinfo_visited pinfo \<Longrightarrow> save_info st pinfo info sv = (st, info)"
  by (simp add: save_info_def)

lemma expand_frag_id_seq:
  "expand_frag_id w n i fr = (fr1, Inr j) \<Longrightarrow>
     ident_seq j = ident_seq i \<and> ident_last j = ident_last i \<and> ident_id j = ident_id i"
  by (auto simp add: expand_frag_id_def Let_def split: if_splits)

lemma accumulate_seq:
  "accumulate g dl i fr = (fr2, j, len) \<Longrightarrow>
     ident_seq j = ident_seq i \<and> ident_frag_id j = ident_frag_id i \<and> ident_id j = ident_id i"
  by (auto simp add: accumulate_def Let_def split: if_splits)

text \<open>The cases of the segmentation block on the first pass, and on a replay.\<close>

lemma reassemble_first_pass_assert:
  assumes "\<not> pinfo_visited pinfo" and "iso15765_frame_table st (ident_seq info) = Some fr"
    and "expand_frag_id (window cfg) (l_frag_id_low l) info fr = (fr1, Inl e)"
  shows "reassemble_fragment cfg reassemble tvb pinfo l st info
           = (store_frame st (ident_seq info) fr1, info, None, Inl e)"
  using assms by (simp add: reassemble_fragment_def)

lemma reassemble_first_pass_errored:
  assumes "\<not> pinfo_visited pinfo" and "iso15765_frame_table st (ident_seq info) = Some fr"
    and "expand_frag_id (window cfg) (l_frag_id_low l) info fr = (fr1, Inr j)"
    and "frame_error fr1"
  shows "reassemble_fragment cfg reassemble tvb pinfo l st info
           = (store_frame st (ident_seq info) fr1, j, None,
              Inr (Some (tvb_new_subset_length tvb (l_offset l) (l_data_length l)),
                   l_complete l))"
  using assms by (simp add: reassemble_fragment_def)

lemma reassemble_first_pass_open:
  assumes "\<not> pinfo_visited pinfo" and "iso15765_frame_table st (ident_seq info) = Some fr"
    and "expand_frag_id (window cfg) (l_frag_id_low l) info fr = (fr1, Inr j)"
    and "\<not> frame_error fr1"
    and "accumulate (ident_frag_id j) (l_data_length l) j fr1 = (fr2, j2, len)"
    and "reassemble (iso15765_reassembly_table st)
           \<lparr>fa_tvb = tvb, fa_offset = l_offset l, fa_pinfo = pinfo, fa_id = ident_seq j2,
            fa_frag_number = ident_frag_id j2, fa_frag_data_len = len,
            fa_more_frags = (\<not> ident_last j2)\<rparr> = (rt, r)"
  shows "reassemble_fragment cfg reassemble tvb pinfo l st info
           = ((store_frame st (ident_seq info) fr2)\<lparr>iso15765_reassembly_table := rt\<rparr>, j2,
              Some \<lparr>fa_tvb = tvb, fa_offset = l_offset l, fa_pinfo = pinfo, fa_id = ident_seq j2,
                    fa_frag_number = ident_frag_id j2, fa_frag_data_len = len,
                    fa_more_frags = (\<not> ident_last j2)\<rparr>,
              (case r of
                 Inl e \<Rightarrow> Inl e
               | Inr (Some new_tvb) \<Rightarrow> Inr (Some new_tvb, True)
               | Inr None \<Rightarrow>
                   Inr (Some (tvb_new_subset_length tvb (l_offset l) (l_data_length l)),
                        l_complete l)))"
  using assms
  by (simp add: reassemble_fragment_def Let_def split: sum.splits option.splits)

lemma reassemble_fragment_seq:
  "ident_seq (fst (snd (reassemble_fragment cfg reassemble tvb pinfo l st info))) = ident_seq info"
proof (cases "iso15765_frame_table st (ident_seq info)")
  case None
  then show ?thesis by (simp add: reassemble_fragment_def)
next
  case (Some fr)
  show ?thesis
  proof (cases "pinfo_visited pinfo")
    case True
    then show ?thesis
      using Some
      by (simp add: reassemble_fragment_def Let_def split: prod.splits sum.splits option.splits)
  next
    case False
    obtain fr1 x where e: "expand_frag_id (window cfg) (l_frag_id_low l) info fr = (fr1, x)"
      by (cases "expand_frag_id (window cfg) (l_frag_id_low l) info fr")
    show ?thesis
    proof (cases x)
      case (Inl err)
      with e have e': "expand_frag_id (window cfg) (l_frag_id_low l) info fr = (fr1, Inl err)"
        by simp
      show ?thesis using reassemble_first_pass_assert [OF False Some e'] by simp
    next
      case (Inr j)
      with e have j: "ident_seq j = ident_seq info" by (auto dest: expand_frag_id_seq)
      show ?thesis
      proof (cases "frame_error fr1")
        case True
        from e Inr have e': "expand_frag_id (window cfg) (l_frag_id_low l) info fr = (fr1, Inr j)"
          by simp
        show ?thesis
          using reassemble_first_pass_errored [OF False Some e' True] j by simp
      next
        case nerr: False
        obtain fr2 j2 len where
          a: "accumulate (ident_frag_id j) (l_data_length l) j fr1 = (fr2, j2, len)"
          by (cases "accumulate (ident_frag_id j) (l_data_length l) j fr1")
        then have j2: "ident_seq j2 = ident_seq j" by (auto dest: accumulate_seq)
        obtain rt r where
          c: "reassemble (iso15765_reassembly_table st)
                \<lparr>fa_tvb = tvb, fa_offset = l_offset l, fa_pinfo = pinfo, fa_id = ident_seq j2,
                 fa_frag_number = ident_frag_id j2, fa_frag_data_len = len,
                 fa_more_frags = (\<not> ident_last j2)\<rparr> = (rt, r)"
          by (cases "reassemble (iso15765_reassembly_table st)
                \<lparr>fa_tvb = tvb, fa_offset = l_offset l, fa_pinfo = pinfo, fa_id = ident_seq j2,
                 fa_frag_number = ident_frag_id j2, fa_frag_data_len = len,
                 fa_more_frags = (\<not> ident_last j2)\<rparr>")
        from e Inr have e': "expand_frag_id (window cfg) (l_frag_id_low l) info fr = (fr1, Inr j)"
          by simp
        show ?thesis
          using reassemble_first_pass_open [where reassemble = reassemble, OF False Some e' nerr a c]
            j j2 by simp
      qed
    qed
  qed
qed

lemma reassemble_fragment_unbound:
  "iso15765_frame_table st (ident_seq info) = None \<Longrightarrow>
     reassemble_fragment cfg reassemble tvb pinfo l st info
       = (st, info, None, Inr (l_next_tvb l, l_complete l))"
  by (simp add: reassemble_fragment_def)

text \<open>
  One first-pass fragment whose sequence has a frame entry, after the
  \<^verbatim>\<open>Save information\<close> step: the three outcomes.
\<close>

lemma frag_step_assert:
  assumes "parse_frame cfg stack tvb bus_type frame_id frame_length = Inr (Some (d, l))"
    and "l_fragmented l" and "show_data_ok tvb l" and "\<not> pinfo_visited p"
    and "save_info (store_ident st p (get_ident st p frame_id)) p (get_ident st p frame_id)
           (l_save l) = (st1, i1)"
    and "iso15765_frame_table st1 (ident_seq i1) = Some fr"
    and "expand_frag_id (window cfg) (l_frag_id_low l) i1 fr = (fr1, Inl e)"
  shows "dissect_iso15765 cfg reassemble stack st tvb p bus_type frame_id frame_length
           = (store_ident (store_frame st1 (ident_seq i1) fr1) p i1, thrown i1 None e)"
  using assms(1-5) reassemble_first_pass_assert [OF assms(4,6,7)]
  by (simp add: dissect_fragment)

lemma frag_step_errored:
  assumes "parse_frame cfg stack tvb bus_type frame_id frame_length = Inr (Some (d, l))"
    and "l_fragmented l" and "show_data_ok tvb l" and "\<not> pinfo_visited p"
    and "save_info (store_ident st p (get_ident st p frame_id)) p (get_ident st p frame_id)
           (l_save l) = (st1, i1)"
    and "iso15765_frame_table st1 (ident_seq i1) = Some fr"
    and "expand_frag_id (window cfg) (l_frag_id_low l) i1 fr = (fr1, Inr j)"
    and "frame_error fr1"
  shows "dissect_iso15765 cfg reassemble stack st tvb p bus_type frame_id frame_length
           = (store_ident (store_frame st1 (ident_seq i1) fr1) p j,
              hand_over j None
                (Some (tvb_new_subset_length tvb (l_offset l) (l_data_length l)))
                (l_complete l) d frame_length)"
  using assms(1-5) reassemble_first_pass_errored [OF assms(4,6,7,8)]
  by (simp add: dissect_fragment)

lemma frag_step_open:
  assumes "parse_frame cfg stack tvb bus_type frame_id frame_length = Inr (Some (d, l))"
    and "l_fragmented l" and "show_data_ok tvb l" and "\<not> pinfo_visited p"
    and "save_info (store_ident st p (get_ident st p frame_id)) p (get_ident st p frame_id)
           (l_save l) = (st1, i1)"
    and "iso15765_frame_table st1 (ident_seq i1) = Some fr"
    and "expand_frag_id (window cfg) (l_frag_id_low l) i1 fr = (fr1, Inr j)"
    and "\<not> frame_error fr1"
    and "accumulate (ident_frag_id j) (l_data_length l) j fr1 = (fr2, j2, len)"
    and "reassemble (iso15765_reassembly_table st1)
           \<lparr>fa_tvb = tvb, fa_offset = l_offset l, fa_pinfo = p, fa_id = ident_seq j2,
            fa_frag_number = ident_frag_id j2, fa_frag_data_len = len,
            fa_more_frags = (\<not> ident_last j2)\<rparr> = (rt, r)"
  shows "dissect_iso15765 cfg reassemble stack st tvb p bus_type frame_id frame_length
           = (store_ident
                ((store_frame st1 (ident_seq i1) fr2)\<lparr>iso15765_reassembly_table := rt\<rparr>) p j2,
              (case r of
                 Inl e \<Rightarrow>
                   thrown j2
                     (Some \<lparr>fa_tvb = tvb, fa_offset = l_offset l, fa_pinfo = p,
                            fa_id = ident_seq j2, fa_frag_number = ident_frag_id j2,
                            fa_frag_data_len = len, fa_more_frags = (\<not> ident_last j2)\<rparr>) e
               | Inr nt \<Rightarrow>
                   hand_over j2
                     (Some \<lparr>fa_tvb = tvb, fa_offset = l_offset l, fa_pinfo = p,
                            fa_id = ident_seq j2, fa_frag_number = ident_frag_id j2,
                            fa_frag_data_len = len, fa_more_frags = (\<not> ident_last j2)\<rparr>)
                     (Some (case nt of
                              Some new_tvb \<Rightarrow> new_tvb
                            | None \<Rightarrow> tvb_new_subset_length tvb (l_offset l) (l_data_length l)))
                     (case nt of Some new_tvb \<Rightarrow> True | None \<Rightarrow> l_complete l)
                     d frame_length))"
proof -
  note m = reassemble_first_pass_open [where reassemble = reassemble, OF assms(4,6,7,8,9,10)]
  have "dissect_iso15765 cfg reassemble stack st tvb p bus_type frame_id frame_length
          = (case reassemble_fragment cfg reassemble tvb p l st1 i1 of
               (st2, info2, call, Inl e) \<Rightarrow> (store_ident st2 p info2, thrown info2 call e)
             | (st2, info2, call, Inr (next_tvb, complete)) \<Rightarrow>
                 (store_ident st2 p info2,
                  hand_over info2 call next_tvb complete d frame_length))"
    using assms(1-5) by (simp add: dissect_fragment)
  then show ?thesis
    unfolding m
    by (cases r) (auto split: option.splits)
qed

text \<open>The frame entry does not depend on the identifier passed along.\<close>

lemma expand_frag_id_indep:
  "expand_frag_id w n i fr
     = (case expand_frag_id w n i' fr of
          (fr1, Inl e) \<Rightarrow> (fr1, Inl e)
        | (fr1, Inr j') \<Rightarrow> (fr1, Inr (i\<lparr>ident_frag_id := ident_frag_id j'\<rparr>)))"
  by (simp add: expand_frag_id_def Let_def)

lemma accumulate_indep: "fst (accumulate g dl i fr) = fst (accumulate g dl i' fr)"
  by (simp add: accumulate_def Let_def)

lemma frame_after_assert:
  "expand_frag_id w n i fr = (fr1, Inl e) \<Longrightarrow> frame_after w n dl fr = fr1"
  using expand_frag_id_indep [of w n "new_identifier 0" fr i]
  by (simp add: frame_after_def)

lemma frame_after_errored:
  "expand_frag_id w n i fr = (fr1, Inr j) \<Longrightarrow> frame_error fr1 \<Longrightarrow> frame_after w n dl fr = fr1"
  using expand_frag_id_indep [of w n "new_identifier 0" fr i]
  by (simp add: frame_after_def)

lemma frame_after_open:
  "expand_frag_id w n i fr = (fr1, Inr j) \<Longrightarrow> \<not> frame_error fr1 \<Longrightarrow>
     accumulate (ident_frag_id j) dl j fr1 = (fr2, j2, len) \<Longrightarrow> frame_after w n dl fr = fr2"
  using expand_frag_id_indep [of w n "new_identifier 0" fr i]
        accumulate_indep [of "ident_frag_id j" dl "(new_identifier 0)\<lparr>ident_frag_id := ident_frag_id j\<rparr>" fr1 j]
  by (simp add: frame_after_def)


lemma accumulate_result:
  "accumulate g dl i fr
     = ((if g > last_frag_id fr then fr\<lparr>last_frag_id := g\<rparr> else fr)
          \<lparr>frame_offset := frame_offset fr + dl,
           frame_complete := (frame_complete fr \<or> frame_offset fr + dl \<ge> frame_len fr)\<rparr>,
        i\<lparr>ident_last := (ident_last i \<or> frame_offset fr + dl \<ge> frame_len fr)\<rparr>,
        (if frame_offset fr + dl \<ge> frame_len fr
         then dl - (frame_offset fr + dl - frame_len fr) else dl))"
  by (simp add: accumulate_def Let_def)

text \<open>One first-pass consecutive frame on a sequence that has a frame entry.\<close>

lemma cf_step:
  assumes cf: "consecutive_frame cfg stack f = Some (n, dl)"
    and bound: "iso15765_frame_table st (msg_seqid st) = Some fr"
  shows "\<exists>st' r.
           dissect_iso15765 cfg reassemble stack st (lf_tvb f)
             \<lparr>pinfo_num = k, pinfo_visited = False\<rparr>
             (lf_bus_type f) (lf_frame_id f) (lf_frame_length f) = (st', r)
         \<and> msg_seqid st' = msg_seqid st
         \<and> iso15765_frame_table st'
             = (iso15765_frame_table st)(msg_seqid st \<mapsto> frame_after (window cfg) n dl fr)
         \<and> proto_data st' = (proto_data st)(k \<mapsto> res_ident r)
         \<and> ident_seq (res_ident r) = msg_seqid st
         \<and> (frame_error (frame_after (window cfg) n dl fr) \<longrightarrow>
               res_fragment r = None \<and> map_option fst (res_next r) \<noteq> Some True)
         \<and> (unat n < length (frag_id_high fr) \<and> frag_id_high fr ! unat n = 255 \<longrightarrow>
               res_fragment r = None \<and> res_next r = None \<and> res_exn r = Some DissectorBug)
         \<and> (unat n < length (frag_id_high fr) \<and> frag_id_high fr ! unat n \<noteq> 255 \<longrightarrow>
               ident_frag_id (res_ident r) = n + ucast (frag_id_high fr ! unat n) * 16)
         \<and> (unat n < length (frag_id_high fr) \<and> frag_id_high fr ! unat n \<noteq> 255
              \<and> \<not> frame_error (frame_after (window cfg) n dl fr) \<longrightarrow>
               (\<exists>c. res_fragment r = Some c
                  \<and> fa_id c = msg_seqid st
                  \<and> fa_frag_number c = n + ucast (frag_id_high fr ! unat n) * 16
                  \<and> fa_frag_data_len c
                      = (if frame_offset fr + dl \<ge> frame_len fr
                         then dl - (frame_offset fr + dl - frame_len fr) else dl)
                  \<and> fa_more_frags c
                      = (\<not> (ident_last (get_ident st \<lparr>pinfo_num = k, pinfo_visited = False\<rparr>
                                          (lf_frame_id f))
                            \<or> frame_offset fr + dl \<ge> frame_len fr))))"
proof -
  let ?p = "\<lparr>pinfo_num = k, pinfo_visited = False\<rparr>"
  let ?i0 = "get_ident st ?p (lf_frame_id f)"
  let ?i1 = "?i0\<lparr>ident_seq := msg_seqid st\<rparr>"
  let ?st1 = "store_ident st ?p ?i0"
  let ?w = "window cfg"
  from cf obtain d l where
    p: "parse_frame cfg stack (lf_tvb f) (lf_bus_type f) (lf_frame_id f) (lf_frame_length f)
       = Inr (Some (d, l))"
    and q: "l_save l = SaveConsecutiveFrame" "l_fragmented l" "show_data_ok (lf_tvb f) l"
      "l_frag_id_low l = n" "l_data_length l = dl" "l_next_tvb l = None" "\<not> l_complete l"
      "n < 16"
    by (rule consecutive_frameD)
  have nv: "\<not> pinfo_visited ?p" by simp
  have sv: "save_info ?st1 ?p ?i0 (l_save l) = (?st1, ?i1)"
    by (simp add: q(1) save_info_consecutive)
  have b: "iso15765_frame_table ?st1 (ident_seq ?i1) = Some fr" using bound by simp
  obtain fr1 x where e: "expand_frag_id ?w n ?i1 fr = (fr1, x)"
    by (cases "expand_frag_id ?w n ?i1 fr")
  show ?thesis
  proof (cases x)
    case (Inl err)
    with e have e': "expand_frag_id ?w (l_frag_id_low l) ?i1 fr = (fr1, Inl err)"
      by (simp add: q)
    have fa: "frame_after ?w n dl fr = fr1"
      using e' by (simp add: q frame_after_assert)
    have ov: "unat n < length (frag_id_high fr) \<Longrightarrow> frag_id_high fr ! unat n = 255 \<and> err = DissectorBug"
      using e' q(8) expand_frag_id_ok [of n fr ?w ?i1] expand_frag_id_overflow [of n fr ?w ?i1]
      by (cases "frag_id_high fr ! unat n = 255") (auto simp add: q(4))
    show ?thesis
      using frag_step_assert [where reassemble = reassemble, OF p q(2,3) nv sv b e'] ov
      by (auto simp add: fa thrown_def)
  next
    case (Inr j)
    with e have e': "expand_frag_id ?w (l_frag_id_low l) ?i1 fr = (fr1, Inr j)"
      by (simp add: q)
    have js: "ident_seq j = msg_seqid st" "ident_last j = ident_last ?i0"
      using expand_frag_id_seq [OF e'] by simp_all
    have nov: "unat n < length (frag_id_high fr) \<Longrightarrow> frag_id_high fr ! unat n \<noteq> 255
                 \<and> ident_frag_id j = n + ucast (frag_id_high fr ! unat n) * 16"
      using e' q(8) expand_frag_id_ok [of n fr ?w ?i1] expand_frag_id_overflow [of n fr ?w ?i1]
      by (cases "frag_id_high fr ! unat n = 255") (auto simp add: q(4))
    show ?thesis
    proof (cases "frame_error fr1")
      case True
      have fa: "frame_after ?w n dl fr = fr1"
        using e' True by (simp add: q frame_after_errored)
      show ?thesis
        using frag_step_errored [where reassemble = reassemble, OF p q(2,3) nv sv b e' True]
          nov js True
        by (auto simp add: fa hand_over_def q)
    next
      case False
      let ?fr2 = "fst (accumulate (ident_frag_id j) dl j fr1)"
      let ?j2 = "fst (snd (accumulate (ident_frag_id j) dl j fr1))"
      let ?len = "snd (snd (accumulate (ident_frag_id j) dl j fr1))"
      have a: "accumulate (ident_frag_id j) (l_data_length l) j fr1 = (?fr2, ?j2, ?len)"
        by (simp add: q)
      have fa: "frame_after ?w n dl fr = ?fr2"
        using frame_after_open [OF _ False, of ?w n ?i1 fr j dl ?fr2 ?j2 ?len] e' a
        by (simp add: q)
      have f1: "frame_offset fr1 = frame_offset fr" "frame_len fr1 = frame_len fr"
        using expand_frag_id_fields [of ?w n ?i1 fr] e' by (simp_all add: q)
      obtain rt r where
        c: "reassemble (iso15765_reassembly_table ?st1)
              \<lparr>fa_tvb = lf_tvb f, fa_offset = l_offset l, fa_pinfo = ?p, fa_id = ident_seq ?j2,
               fa_frag_number = ident_frag_id ?j2, fa_frag_data_len = ?len,
               fa_more_frags = (\<not> ident_last ?j2)\<rparr> = (rt, r)"
        by (cases "reassemble (iso15765_reassembly_table ?st1)
              \<lparr>fa_tvb = lf_tvb f, fa_offset = l_offset l, fa_pinfo = ?p, fa_id = ident_seq ?j2,
               fa_frag_number = ident_frag_id ?j2, fa_frag_data_len = ?len,
               fa_more_frags = (\<not> ident_last ?j2)\<rparr>")
      have ne: "\<not> frame_error ?fr2" using False by (simp add: accumulate_result)
      show ?thesis
        using frag_step_open [where reassemble = reassemble, OF p q(2,3) nv sv b e' False a c]
          nov js ne
        by (cases r) (auto simp add: fa hand_over_def thrown_def accumulate_result f1)
    qed
  qed
qed


lemma dissect_pci_first:
  assumes "dissect_pci cfg tvb bus_type frame_length ae pci = Inr (Some l)"
    and "l_save l = SaveFirstFrame full_len"
  shows "l_frag_id_low l = 0 \<and> l_fragmented l"
  using assms
  by (auto simp add: dissect_pci_def Let_def split: if_splits sum.splits prod.splits)

lemma first_frameD:
  assumes "first_frame cfg stack f = Some (full_len, dl)"
  obtains d l where
    "parse_frame cfg stack (lf_tvb f) (lf_bus_type f) (lf_frame_id f) (lf_frame_length f)
       = Inr (Some (d, l))"
    "l_save l = SaveFirstFrame full_len" "l_fragmented l" "show_data_ok (lf_tvb f) l"
    "l_frag_id_low l = 0" "l_data_length l = dl" "l_next_tvb l = None" "\<not> l_complete l"
proof -
  from assms obtain d l where
    p: "parse_frame cfg stack (lf_tvb f) (lf_bus_type f) (lf_frame_id f) (lf_frame_length f)
       = Inr (Some (d, l))"
    and q: "l_save l = SaveFirstFrame full_len" "l_fragmented l" "show_data_ok (lf_tvb f) l"
      "l_data_length l = dl"
    by (auto simp add: first_frame_def
        split: sum.splits option.splits if_splits save_information.splits)
  from p obtain ae pci where
    dp: "dissect_pci cfg (lf_tvb f) (lf_bus_type f) (lf_frame_length f) ae pci = Inr (Some l)"
    by (auto simp add: parse_frame_def split: sum.splits option.splits prod.splits)
  from dissect_pci_fragmented(2) [OF dp q(2)] dissect_pci_first [OF dp q(1)]
  have "l_next_tvb l = None" "\<not> l_complete l" "l_frag_id_low l = 0" by simp_all
  with p q show ?thesis using that by blast
qed

lemma expand_new_frame:
  "expand_frag_id w 0 i (new_frame s full_len)
     = ((new_frame s full_len)\<lparr>frag_id_high := (replicate 16 0)[0 := 1]\<rparr>,
        Inr (i\<lparr>ident_frag_id := 0\<rparr>))"
  by (simp add: expand_frag_id_def new_frame_def Let_def)

text \<open>The frame entry a first frame leaves on the first pass.\<close>

lemma ff_step:
  assumes ff: "first_frame cfg stack f = Some (full_len, dl)"
  shows "\<exists>st' r.
           dissect_iso15765 cfg reassemble stack st (lf_tvb f)
             \<lparr>pinfo_num = k, pinfo_visited = False\<rparr>
             (lf_bus_type f) (lf_frame_id f) (lf_frame_length f) = (st', r)
         \<and> msg_seqid st' = msg_seqid st + 1
         \<and> iso15765_frame_table st'
             = (iso15765_frame_table st)
                 (msg_seqid st + 1 \<mapsto>
                    (new_frame (msg_seqid st + 1) full_len)
                      \<lparr>frag_id_high := (replicate 16 0)[0 := 1], frame_offset := dl,
                       frame_complete := (dl \<ge> full_len)\<rparr>)
         \<and> proto_data st' = (proto_data st)(k \<mapsto> res_ident r)
         \<and> ident_seq (res_ident r) = msg_seqid st + 1
         \<and> ident_frag_id (res_ident r) = 0
         \<and> (\<exists>c. res_fragment r = Some c
                \<and> fa_id c = msg_seqid st + 1
                \<and> fa_frag_number c = 0
                \<and> fa_frag_data_len c = (if dl \<ge> full_len then full_len else dl)
                \<and> fa_more_frags c
                    = (\<not> (ident_last (get_ident st \<lparr>pinfo_num = k, pinfo_visited = False\<rparr>
                                        (lf_frame_id f))
                          \<or> dl \<ge> full_len)))"
proof -
  let ?p = "\<lparr>pinfo_num = k, pinfo_visited = False\<rparr>"
  let ?i0 = "get_ident st ?p (lf_frame_id f)"
  let ?s = "msg_seqid st + 1"
  let ?i1 = "?i0\<lparr>ident_seq := ?s\<rparr>"
  let ?st0 = "store_ident st ?p ?i0"
  let ?st1 = "?st0\<lparr>msg_seqid := ?s,
                  iso15765_frame_table :=
                    (iso15765_frame_table ?st0)(?s \<mapsto> new_frame ?s full_len)\<rparr>"
  let ?fr1 = "(new_frame ?s full_len)\<lparr>frag_id_high := (replicate 16 0)[0 := 1]\<rparr>"
  let ?j = "?i1\<lparr>ident_frag_id := 0\<rparr>"
  from ff obtain d l where
    p: "parse_frame cfg stack (lf_tvb f) (lf_bus_type f) (lf_frame_id f) (lf_frame_length f)
       = Inr (Some (d, l))"
    and q: "l_save l = SaveFirstFrame full_len" "l_fragmented l" "show_data_ok (lf_tvb f) l"
      "l_frag_id_low l = 0" "l_data_length l = dl" "l_next_tvb l = None" "\<not> l_complete l"
    by (rule first_frameD)
  have nv: "\<not> pinfo_visited ?p" by simp
  have sv: "save_info ?st0 ?p ?i0 (l_save l) = (?st1, ?i1)"
    by (simp add: q(1) save_info_first)
  have b: "iso15765_frame_table ?st1 (ident_seq ?i1) = Some (new_frame ?s full_len)" by simp
  have e: "expand_frag_id (window cfg) (l_frag_id_low l) ?i1 (new_frame ?s full_len)
             = (?fr1, Inr ?j)"
    by (simp add: q(4) expand_new_frame)
  have ne: "\<not> frame_error ?fr1" by (simp add: new_frame_def)
  let ?fr2 = "fst (accumulate (ident_frag_id ?j) dl ?j ?fr1)"
  let ?j2 = "fst (snd (accumulate (ident_frag_id ?j) dl ?j ?fr1))"
  let ?len = "snd (snd (accumulate (ident_frag_id ?j) dl ?j ?fr1))"
  have a: "accumulate (ident_frag_id ?j) (l_data_length l) ?j ?fr1 = (?fr2, ?j2, ?len)"
    by (simp add: q)
  obtain rt r where
    c: "reassemble (iso15765_reassembly_table ?st1)
          \<lparr>fa_tvb = lf_tvb f, fa_offset = l_offset l, fa_pinfo = ?p, fa_id = ident_seq ?j2,
           fa_frag_number = ident_frag_id ?j2, fa_frag_data_len = ?len,
           fa_more_frags = (\<not> ident_last ?j2)\<rparr> = (rt, r)"
    by (cases "reassemble (iso15765_reassembly_table ?st1)
          \<lparr>fa_tvb = lf_tvb f, fa_offset = l_offset l, fa_pinfo = ?p, fa_id = ident_seq ?j2,
           fa_frag_number = ident_frag_id ?j2, fa_frag_data_len = ?len,
           fa_more_frags = (\<not> ident_last ?j2)\<rparr>")
  show ?thesis
    using frag_step_open [where reassemble = reassemble, OF p q(2,3) nv sv b e ne a c]
    by (cases r) (auto simp add: hand_over_def thrown_def accumulate_result new_frame_def)
qed

lemma frame_after_high:
  "n < 16 \<Longrightarrow> frag_id_high (frame_after w n dl fr)
     = (frag_id_high fr)[unat n := frag_id_high fr ! unat n + 1]"
  using expand_frag_id_high [of n w "new_identifier 0" fr]
  by (auto simp add: frame_after_def accumulate_result split: prod.splits sum.splits)

lemma frame_after_error_kept:
  "frame_error fr \<Longrightarrow>
     frame_error (frame_after w n dl fr)
     \<and> frame_offset (frame_after w n dl fr) = frame_offset fr
     \<and> frame_complete (frame_after w n dl fr) = frame_complete fr
     \<and> frame_len (frame_after w n dl fr) = frame_len fr"
  using expand_frag_id_error_kept [of fr w n "new_identifier 0"]
        expand_frag_id_fields [of w n "new_identifier 0" fr]
  by (auto simp add: frame_after_def split: prod.splits sum.splits)

lemma dissect_stream_Cons_fst:
  "fst (dissect_stream cfg reassemble stack v k st (f # fs))
     = fst (dissect_stream cfg reassemble stack v (Suc k)
              (fst (dissect_iso15765 cfg reassemble stack st (lf_tvb f)
                      \<lparr>pinfo_num = k, pinfo_visited = v\<rparr> (lf_bus_type f) (lf_frame_id f)
                      (lf_frame_length f))) fs)"
  by (simp split: prod.splits)

lemma dissect_stream_Cons_snd:
  "snd (dissect_stream cfg reassemble stack v k st (f # fs))
     = snd (dissect_iso15765 cfg reassemble stack st (lf_tvb f)
              \<lparr>pinfo_num = k, pinfo_visited = v\<rparr> (lf_bus_type f) (lf_frame_id f)
              (lf_frame_length f))
       # snd (dissect_stream cfg reassemble stack v (Suc k)
                (fst (dissect_iso15765 cfg reassemble stack st (lf_tvb f)
                        \<lparr>pinfo_num = k, pinfo_visited = v\<rparr> (lf_bus_type f) (lf_frame_id f)
                        (lf_frame_length f))) fs)"
  by (simp split: prod.splits)

lemma length_dissect_stream:
  "length (snd (dissect_stream cfg reassemble stack v k st fs)) = length fs"
  by (induction fs arbitrary: k st) (simp_all add: dissect_stream_Cons_snd del: dissect_stream.simps(2))

lemma dissect_stream_append_fst:
  "fst (dissect_stream cfg reassemble stack v k st (xs @ ys))
     = fst (dissect_stream cfg reassemble stack v (k + length xs)
              (fst (dissect_stream cfg reassemble stack v k st xs)) ys)"
  by (induction xs arbitrary: k st)
     (simp_all add: dissect_stream_Cons_fst del: dissect_stream.simps(2))

lemma dissect_stream_append_snd:
  "snd (dissect_stream cfg reassemble stack v k st (xs @ ys))
     = snd (dissect_stream cfg reassemble stack v k st xs)
       @ snd (dissect_stream cfg reassemble stack v (k + length xs)
                (fst (dissect_stream cfg reassemble stack v k st xs)) ys)"
  by (induction xs arbitrary: k st)
     (simp_all add: dissect_stream_Cons_fst dissect_stream_Cons_snd del: dissect_stream.simps(2))

text \<open>Consecutive frames with nonzero nibble leave the counter of low id 0 alone.\<close>

lemma nonzero_run_keeps_counter:
  assumes "\<forall>f \<in> set cfs. \<exists>n dl. consecutive_frame cfg stack f = Some (n, dl) \<and> n \<noteq> 0"
    and "iso15765_frame_table st (msg_seqid st) = Some fr"
    and "length (frag_id_high fr) = 16" and "frag_id_high fr ! 0 = c"
  shows "\<exists>fr'. iso15765_frame_table (fst (dissect_stream cfg reassemble stack False k st cfs))
                 (msg_seqid st) = Some fr'
           \<and> msg_seqid (fst (dissect_stream cfg reassemble stack False k st cfs)) = msg_seqid st
           \<and> length (frag_id_high fr') = 16 \<and> frag_id_high fr' ! 0 = c"
  using assms
proof (induction cfs arbitrary: k st fr)
  case Nil
  then show ?case by simp
next
  case (Cons f fs)
  from Cons.prems(1) obtain n dl where
    cf: "consecutive_frame cfg stack f = Some (n, dl)" and nz: "n \<noteq> 0"
    by auto
  from cf have n16: "n < 16" by (rule consecutive_frameD)
  from nz have un: "unat n \<noteq> 0" by (simp add: unat_eq_zero)
  from cf_step [OF cf Cons.prems(2), of reassemble k] obtain st' r where
    s: "dissect_iso15765 cfg reassemble stack st (lf_tvb f)
          \<lparr>pinfo_num = k, pinfo_visited = False\<rparr>
          (lf_bus_type f) (lf_frame_id f) (lf_frame_length f) = (st', r)"
    and m: "msg_seqid st' = msg_seqid st"
    and t: "iso15765_frame_table st'
             = (iso15765_frame_table st)(msg_seqid st \<mapsto> frame_after (window cfg) n dl fr)"
    by blast
  let ?fr = "frame_after (window cfg) n dl fr"
  have b: "iso15765_frame_table st' (msg_seqid st') = Some ?fr" by (simp add: m t)
  have l: "length (frag_id_high ?fr) = 16" "frag_id_high ?fr ! 0 = c"
    using Cons.prems(3,4) un by (simp_all add: frame_after_high [OF n16])
  from Cons.prems(1) have rest:
    "\<forall>f \<in> set fs. \<exists>n dl. consecutive_frame cfg stack f = Some (n, dl) \<and> n \<noteq> 0"
    by simp
  from Cons.IH [OF rest b l, of "Suc k"] show ?case
    by (simp add: dissect_stream_Cons_fst s m del: dissect_stream.simps(2))
qed

lemma unat_nibble: "(n :: guint16) < 16 \<Longrightarrow> unat n < 16"
  by (simp add: word_less_nat_alt)

lemma unat_expanded_id:
  assumes "(n :: guint16) < 16"
  shows "unat (n + ucast (c :: guint8) * 16) = unat n + 16 * unat c"
proof -
  have c: "unat (ucast c :: guint16) = unat c"
    using unat_byte_less [of c] by (simp add: unsigned_ucast_eq take_bit_nat_eq_self)
  have "unat c < 256" by (rule unat_byte_less)
  then have m: "unat ((ucast c :: guint16) * 16) = unat c * 16"
    by (simp add: unat_word_ariths c)
  have "unat n < 16" using assms by (rule unat_nibble)
  with m \<open>unat c < 256\<close> show ?thesis
    by (simp add: unat_word_ariths)
qed

lemma unat_byte_succ: "(c :: guint8) \<noteq> 255 \<Longrightarrow> unat (c + 1) = unat c + 1"
proof -
  assume "c \<noteq> 255"
  then have "c + 1 \<noteq> 0" by (simp add: byte_succ_zero)
  then have "1 + c \<noteq> 0" by (simp add: add.commute)
  then have "unat (1 + c) = Suc (unat c)" by (rule unatSuc)
  then show ?thesis by (simp add: add.commute)
qed

text \<open>A run of first-pass consecutive frames expands ids by the counters.\<close>

lemma cf_run_expanded_ids:
  assumes "list_all2 (\<lambda>f n. \<exists>dl. consecutive_frame cfg stack f = Some (n, dl)) cfs ns"
    and "iso15765_frame_table st (msg_seqid st) = Some fr"
    and "length (frag_id_high fr) = 16"
    and "\<forall>n<16. unat (frag_id_high fr ! unat n) = count_list seen n"
    and "\<forall>n \<in> set ns. count_list (seen @ ns) n \<le> 255"
  shows "map (\<lambda>r. unat (ident_frag_id (res_ident r)))
           (snd (dissect_stream cfg reassemble stack False k st cfs))
           = spec_expanded_ids seen ns"
  using assms
proof (induction cfs arbitrary: ns k st fr seen)
  case Nil
  then show ?case by simp
next
  case (Cons f fs)
  from Cons.prems(1) obtain n ns' dl where
    ns: "ns = n # ns'" and cf: "consecutive_frame cfg stack f = Some (n, dl)"
    and rest: "list_all2 (\<lambda>f n. \<exists>dl. consecutive_frame cfg stack f = Some (n, dl)) fs ns'"
    by (auto simp add: list_all2_Cons1)
  from cf have n16: "n < 16" by (rule consecutive_frameD)
  then have un: "unat n < 16" by (rule unat_nibble)
  let ?c = "frag_id_high fr ! unat n"
  have cnt: "unat ?c = count_list seen n" using Cons.prems(4) n16 by simp
  have "count_list (seen @ ns) n \<le> 255" using Cons.prems(5) ns by simp
  then have c254: "unat ?c < 255" using cnt ns by simp
  then have cne: "?c \<noteq> 255" by auto
  have len: "unat n < length (frag_id_high fr)" using un Cons.prems(3) by simp
  from cf_step [OF cf Cons.prems(2), of reassemble k] len cne obtain st' r where
    s: "dissect_iso15765 cfg reassemble stack st (lf_tvb f)
          \<lparr>pinfo_num = k, pinfo_visited = False\<rparr>
          (lf_bus_type f) (lf_frame_id f) (lf_frame_length f) = (st', r)"
    and m: "msg_seqid st' = msg_seqid st"
    and t: "iso15765_frame_table st'
             = (iso15765_frame_table st)(msg_seqid st \<mapsto> frame_after (window cfg) n dl fr)"
    and i: "ident_frag_id (res_ident r) = n + ucast ?c * 16"
    by blast
  let ?fr = "frame_after (window cfg) n dl fr"
  have b: "iso15765_frame_table st' (msg_seqid st') = Some ?fr" by (simp add: m t)
  have h: "frag_id_high ?fr = (frag_id_high fr)[unat n := ?c + 1]"
    by (rule frame_after_high [OF n16])
  have l: "length (frag_id_high ?fr) = 16" using Cons.prems(3) by (simp add: h)
  have rel: "\<forall>m<16. unat (frag_id_high ?fr ! unat m) = count_list (seen @ [n]) m"
  proof (intro allI impI)
    fix m :: guint16
    assume m16: "m < 16"
    show "unat (frag_id_high ?fr ! unat m) = count_list (seen @ [n]) m"
    proof (cases "m = n")
      case True
      then show ?thesis
        using len cnt cne by (simp add: h unat_byte_succ)
    next
      case False
      then have "unat m \<noteq> unat n" by (simp add: word_unat_eq_iff)
      then show ?thesis
        using Cons.prems(4) m16 False by (simp add: h)
    qed
  qed
  have lim: "\<forall>x \<in> set ns'. count_list ((seen @ [n]) @ ns') x \<le> 255"
    using Cons.prems(5) ns by simp
  have "map (\<lambda>r. unat (ident_frag_id (res_ident r)))
          (snd (dissect_stream cfg reassemble stack False (Suc k) st' fs))
          = spec_expanded_ids (seen @ [n]) ns'"
    by (rule Cons.IH [OF rest b l rel lim])
  then show ?case
    using cnt by (simp add: dissect_stream_Cons_snd s ns i unat_expanded_id [OF n16]
        del: dissect_stream.simps(2))
qed


lemma consecutive_nibbles:
  "map (\<lambda>f. map_option fst (consecutive_frame cfg stack f)) cfs = map Some ns \<Longrightarrow>
     list_all2 (\<lambda>f n. \<exists>dl. consecutive_frame cfg stack f = Some (n, dl)) cfs ns"
proof (induction cfs arbitrary: ns)
  case Nil
  then show ?case by simp
next
  case (Cons f fs)
  then obtain n ns' where ns: "ns = n # ns'" by (cases ns) auto
  with Cons.prems have "map_option fst (consecutive_frame cfg stack f) = Some n"
    and r: "map (\<lambda>f. map_option fst (consecutive_frame cfg stack f)) fs = map Some ns'"
    by simp_all
  then obtain dl where "consecutive_frame cfg stack f = Some (n, dl)" by auto
  with Cons.IH [OF r] ns show ?case by auto
qed

lemma spec_expanded_ids_length: "length (spec_expanded_ids seen ns) = length ns"
  by (induction ns arbitrary: seen) simp_all

lemma spec_expanded_ids_nth:
  "i < length ns \<Longrightarrow>
     spec_expanded_ids seen ns ! i = unat (ns ! i) + 16 * count_list (seen @ take i ns) (ns ! i)"
proof (induction ns arbitrary: seen i)
  case Nil
  then show ?case by simp
next
  case (Cons n ns)
  show ?case
  proof (cases i)
    case 0
    then show ?thesis by simp
  next
    case (Suc j)
    with Cons.prems have "j < length ns" by simp
    from Cons.IH [OF this, of "seen @ [n]"] Suc show ?thesis by simp
  qed
qed

lemma frame_after_error:
  assumes "n < 16" and "unat n < length (frag_id_high fr)" and "frag_id_high fr ! unat n \<noteq> 255"
  shows "frame_error (frame_after w n dl fr)
           = (frame_error fr
              \<or> ucast (n + ucast (frag_id_high fr ! unat n) * 16) + w < ucast (last_frag_id fr))"
proof -
  obtain fr1 x where e: "expand_frag_id w n (new_identifier 0) fr = (fr1, x)"
    by (cases "expand_frag_id w n (new_identifier 0) fr")
  from expand_frag_id_ok [OF assms, of w "new_identifier 0"] e obtain j where x: "x = Inr j"
    by simp
  from expand_frag_id_error [OF assms, of w "new_identifier 0"] e
  have "frame_error fr1
          = (frame_error fr
             \<or> ucast (n + ucast (frag_id_high fr ! unat n) * 16) + w < ucast (last_frag_id fr))"
    by simp
  then show ?thesis
    using e x by (simp add: frame_after_def accumulate_result)
qed

text \<open>Once a message is in error, its consecutive frames go nowhere.\<close>

lemma errored_run:
  assumes "list_all (\<lambda>f. consecutive_frame cfg stack f \<noteq> None) cfs"
    and "iso15765_frame_table st (msg_seqid st) = Some fr"
    and "frame_error fr"
  shows "list_all (\<lambda>r. res_fragment r = None \<and> map_option fst (res_next r) \<noteq> Some True)
           (snd (dissect_stream cfg reassemble stack False k st cfs))
       \<and> msg_seqid (fst (dissect_stream cfg reassemble stack False k st cfs)) = msg_seqid st
       \<and> map_option (\<lambda>fr'. (frame_error fr', frame_offset fr', frame_complete fr'))
           (iso15765_frame_table (fst (dissect_stream cfg reassemble stack False k st cfs))
              (msg_seqid st))
           = Some (True, frame_offset fr, frame_complete fr)"
  using assms
proof (induction cfs arbitrary: k st fr)
  case Nil
  then show ?case by simp
next
  case (Cons f fs)
  from Cons.prems(1) obtain n dl where cf: "consecutive_frame cfg stack f = Some (n, dl)"
    by auto
  let ?fr = "frame_after (window cfg) n dl fr"
  have k: "frame_error ?fr" "frame_offset ?fr = frame_offset fr"
    "frame_complete ?fr = frame_complete fr"
    using frame_after_error_kept [OF Cons.prems(3), of "window cfg" n dl] by simp_all
  from cf_step [OF cf Cons.prems(2), of reassemble k] k(1) obtain st' r where
    s: "dissect_iso15765 cfg reassemble stack st (lf_tvb f)
          \<lparr>pinfo_num = k, pinfo_visited = False\<rparr>
          (lf_bus_type f) (lf_frame_id f) (lf_frame_length f) = (st', r)"
    and m: "msg_seqid st' = msg_seqid st"
    and t: "iso15765_frame_table st'
             = (iso15765_frame_table st)(msg_seqid st \<mapsto> ?fr)"
    and n: "res_fragment r = None" "map_option fst (res_next r) \<noteq> Some True"
    by blast
  have b: "iso15765_frame_table st' (msg_seqid st') = Some ?fr" by (simp add: m t)
  from Cons.prems(1) have rest: "list_all (\<lambda>f. consecutive_frame cfg stack f \<noteq> None) fs"
    by simp
  from Cons.IH [OF rest b k(1), of "Suc k"] n show ?case
    by (simp add: dissect_stream_Cons_fst dissect_stream_Cons_snd s m k
        del: dissect_stream.simps(2))
qed

text \<open>After a run of first-pass consecutive frames the counters hold the occurrences.\<close>

lemma cf_run_counters:
  assumes "list_all2 (\<lambda>f n. \<exists>dl. consecutive_frame cfg stack f = Some (n, dl)) cfs ns"
    and "iso15765_frame_table st (msg_seqid st) = Some fr"
    and "length (frag_id_high fr) = 16"
    and "\<forall>n<16. unat (frag_id_high fr ! unat n) = count_list seen n"
    and "\<forall>n \<in> set ns. count_list (seen @ ns) n \<le> 255"
  shows "\<exists>fr'. iso15765_frame_table (fst (dissect_stream cfg reassemble stack False k st cfs))
                 (msg_seqid st) = Some fr'
           \<and> msg_seqid (fst (dissect_stream cfg reassemble stack False k st cfs)) = msg_seqid st
           \<and> length (frag_id_high fr') = 16
           \<and> (\<forall>n<16. unat (frag_id_high fr' ! unat n) = count_list (seen @ ns) n)"
  using assms
proof (induction cfs arbitrary: ns k st fr seen)
  case Nil
  then show ?case by simp
next
  case (Cons f fs)
  from Cons.prems(1) obtain n ns' dl where
    ns: "ns = n # ns'" and cf: "consecutive_frame cfg stack f = Some (n, dl)"
    and rest: "list_all2 (\<lambda>f n. \<exists>dl. consecutive_frame cfg stack f = Some (n, dl)) fs ns'"
    by (auto simp add: list_all2_Cons1)
  from cf have n16: "n < 16" by (rule consecutive_frameD)
  then have un: "unat n < 16" by (rule unat_nibble)
  let ?c = "frag_id_high fr ! unat n"
  have cnt: "unat ?c = count_list seen n" using Cons.prems(4) n16 by simp
  have "count_list (seen @ ns) n \<le> 255" using Cons.prems(5) ns by simp
  then have c254: "unat ?c < 255" using cnt ns by simp
  then have cne: "?c \<noteq> 255" by auto
  have len: "unat n < length (frag_id_high fr)" using un Cons.prems(3) by simp
  from cf_step [OF cf Cons.prems(2), of reassemble k] obtain st' r where
    s: "dissect_iso15765 cfg reassemble stack st (lf_tvb f)
          \<lparr>pinfo_num = k, pinfo_visited = False\<rparr>
          (lf_bus_type f) (lf_frame_id f) (lf_frame_length f) = (st', r)"
    and m: "msg_seqid st' = msg_seqid st"
    and t: "iso15765_frame_table st'
             = (iso15765_frame_table st)(msg_seqid st \<mapsto> frame_after (window cfg) n dl fr)"
    by blast
  let ?fr = "frame_after (window cfg) n dl fr"
  have b: "iso15765_frame_table st' (msg_seqid st') = Some ?fr" by (simp add: m t)
  have h: "frag_id_high ?fr = (frag_id_high fr)[unat n := ?c + 1]"
    by (rule frame_after_high [OF n16])
  have l: "length (frag_id_high ?fr) = 16" using Cons.prems(3) by (simp add: h)
  have rel: "\<forall>m<16. unat (frag_id_high ?fr ! unat m) = count_list (seen @ [n]) m"
  proof (intro allI impI)
    fix m :: guint16
    assume m16: "m < 16"
    show "unat (frag_id_high ?fr ! unat m) = count_list (seen @ [n]) m"
    proof (cases "m = n")
      case True
      then show ?thesis
        using len cnt cne by (simp add: h unat_byte_succ)
    next
      case False
      then have "unat m \<noteq> unat n" by (simp add: word_unat_eq_iff)
      then show ?thesis
        using Cons.prems(4) m16 False by (simp add: h)
    qed
  qed
  have lim: "\<forall>x \<in> set ns'. count_list ((seen @ [n]) @ ns') x \<le> 255"
    using Cons.prems(5) ns by simp
  from Cons.IH [OF rest b l rel lim, of "Suc k"] show ?case
    by (simp add: dissect_stream_Cons_fst s m ns del: dissect_stream.simps(2))
qed

lemma count_list_replicate: "count_list (replicate k x) y = (if x = y then k else 0)"
  by (induction k) auto

lemma first_frame_counters:
  "\<forall>n<16. unat (((replicate 16 0)[0 := 1] :: guint8 list) ! unat n) = count_list [0] (n :: guint16)"
proof (intro allI impI)
  fix n :: guint16
  assume n16: "n < 16"
  then have un: "unat n < 16" by (rule unat_nibble)
  show "unat (((replicate 16 0)[0 := 1] :: guint8 list) ! unat n) = count_list [0] n"
  proof (cases "n = 0")
    case True
    then show ?thesis by simp
  next
    case False
    then have "unat n \<noteq> 0" by (simp add: unat_eq_zero)
    then show ?thesis using un False by simp
  qed
qed

text \<open>The cached identifiers, and a replay that finds them.\<close>

lemma save_info_proto_data:
  "proto_data (fst (save_info st p info sv)) = proto_data st"
  by (simp add: save_info_def split: save_information.splits)

lemma reassemble_fragment_proto_data:
  "proto_data (fst (reassemble_fragment cfg reassemble tvb p l st info)) = proto_data st"
  unfolding reassemble_fragment_def
  by (auto simp add: Let_def split: option.splits prod.splits sum.splits)

lemma dissect_proto_data:
  "proto_data (fst (dissect_iso15765 cfg reassemble stack st tvb p bus_type frame_id frame_length))
     = (proto_data st)(pinfo_num p \<mapsto>
         res_ident (snd (dissect_iso15765 cfg reassemble stack st tvb p bus_type frame_id
                           frame_length)))"
proof (cases "parse_frame cfg stack tvb bus_type frame_id frame_length")
  case (Inl e)
  then show ?thesis by (simp add: dissect_iso15765_def Let_def thrown_def)
next
  case (Inr x)
  show ?thesis
  proof (cases x)
    case None
    with Inr show ?thesis by (simp add: dissect_iso15765_def Let_def)
  next
    case (Some dl)
    obtain d l where dl: "dl = (d, l)" by (cases dl)
    let ?st0 = "store_ident st p (get_ident st p frame_id)"
    obtain st1 info1 where sv: "save_info ?st0 p (get_ident st p frame_id) (l_save l) = (st1, info1)"
      by (cases "save_info ?st0 p (get_ident st p frame_id) (l_save l)")
    have p1: "proto_data st1 = proto_data ?st0"
      using save_info_proto_data [of ?st0 p "get_ident st p frame_id" "l_save l"] sv by simp
    obtain st2 info2 call r where
      rf: "reassemble_fragment cfg reassemble tvb p l st1 info1 = (st2, info2, call, r)"
      by (cases "reassemble_fragment cfg reassemble tvb p l st1 info1")
    have p2: "proto_data st2 = proto_data st1"
      using reassemble_fragment_proto_data [of cfg reassemble tvb p l st1 info1] rf by simp
    show ?thesis
      using Inr Some dl sv rf p1 p2
      by (cases r) (auto simp add: dissect_iso15765_def Let_def thrown_def hand_over_def)
  qed
qed

lemma dissect_stream_proto_data:
  "proto_data (fst (dissect_stream cfg reassemble stack v k st fs)) m
     = (if k \<le> m \<and> m < k + length fs
        then Some (res_ident (snd (dissect_stream cfg reassemble stack v k st fs) ! (m - k)))
        else proto_data st m)"
proof (induction fs arbitrary: k st)
  case Nil
  then show ?case by auto
next
  case (Cons f fs)
  let ?step = "dissect_iso15765 cfg reassemble stack st (lf_tvb f)
                 \<lparr>pinfo_num = k, pinfo_visited = v\<rparr> (lf_bus_type f) (lf_frame_id f)
                 (lf_frame_length f)"
  have pd: "proto_data (fst ?step) = (proto_data st)(k \<mapsto> res_ident (snd ?step))"
    using dissect_proto_data [of cfg reassemble stack st "lf_tvb f"
        "\<lparr>pinfo_num = k, pinfo_visited = v\<rparr>"] by simp
  have ih: "proto_data (fst (dissect_stream cfg reassemble stack v (Suc k) (fst ?step) fs)) m
     = (if Suc k \<le> m \<and> m < Suc k + length fs
        then Some (res_ident (snd (dissect_stream cfg reassemble stack v (Suc k) (fst ?step) fs)
                                ! (m - Suc k)))
        else proto_data (fst ?step) m)"
    by (rule Cons.IH)
  show ?case
    unfolding dissect_stream_Cons_fst dissect_stream_Cons_snd ih pd
    by (cases "m = k") (auto simp add: nth_Cons' Suc_diff_le)
qed


lemma reassemble_fragment_replay:
  assumes "pinfo_visited p"
  shows "msg_seqid (fst (reassemble_fragment cfg reassemble tvb p l st info)) = msg_seqid st"
    and "iso15765_frame_table (fst (reassemble_fragment cfg reassemble tvb p l st info))
           = iso15765_frame_table st"
    and "fst (snd (reassemble_fragment cfg reassemble tvb p l st info)) = info"
    and "case fst (snd (snd (reassemble_fragment cfg reassemble tvb p l st info))) of
           None \<Rightarrow> True
         | Some c \<Rightarrow>
             fa_id c = ident_seq info \<and> fa_frag_number c = ident_frag_id info
             \<and> fa_more_frags c = (\<not> ident_last info)
             \<and> fa_frag_data_len c = l_data_length l
             \<and> map_option frame_error (iso15765_frame_table st (ident_seq info)) = Some False"
  using assms unfolding reassemble_fragment_def
  by (auto simp add: Let_def map_upd_triv split: option.splits prod.splits sum.splits)

lemma save_info_visited_id:
  "pinfo_visited p \<Longrightarrow> save_info st p info sv = (st, info)"
  by (simp add: save_info_def)

lemma store_ident_cached:
  "proto_data st (pinfo_num p) = Some info \<Longrightarrow> store_ident st p info = st"
  by (simp add: store_ident_def map_upd_triv)

lemma get_ident_cached:
  "proto_data st (pinfo_num p) = Some info \<Longrightarrow> get_ident st p frame_id = info"
  by (simp add: get_ident_def)

lemma replay_step:
  assumes c: "proto_data st (pinfo_num p) = Some info" and v: "pinfo_visited p"
  shows "msg_seqid (fst (dissect_iso15765 cfg reassemble stack st tvb p bus_type frame_id
                           frame_length)) = msg_seqid st"
    and "iso15765_frame_table (fst (dissect_iso15765 cfg reassemble stack st tvb p bus_type
                                      frame_id frame_length)) = iso15765_frame_table st"
    and "proto_data (fst (dissect_iso15765 cfg reassemble stack st tvb p bus_type frame_id
                            frame_length)) = proto_data st"
    and "res_ident (snd (dissect_iso15765 cfg reassemble stack st tvb p bus_type frame_id
                           frame_length)) = info"
    and "case res_fragment (snd (dissect_iso15765 cfg reassemble stack st tvb p bus_type frame_id
                                   frame_length)) of
           None \<Rightarrow> True
         | Some c \<Rightarrow>
             fa_id c = ident_seq info \<and> fa_frag_number c = ident_frag_id info
             \<and> fa_more_frags c = (\<not> ident_last info)
             \<and> map_option frame_error (iso15765_frame_table st (ident_seq info)) = Some False"
proof -
  let ?D = "dissect_iso15765 cfg reassemble stack st tvb p bus_type frame_id frame_length"
  have all: "msg_seqid (fst ?D) = msg_seqid st
      \<and> iso15765_frame_table (fst ?D) = iso15765_frame_table st
      \<and> res_ident (snd ?D) = info
      \<and> (case res_fragment (snd ?D) of
           None \<Rightarrow> True
         | Some c \<Rightarrow>
             fa_id c = ident_seq info \<and> fa_frag_number c = ident_frag_id info
             \<and> fa_more_frags c = (\<not> ident_last info)
             \<and> map_option frame_error (iso15765_frame_table st (ident_seq info)) = Some False)"
  proof (cases "parse_frame cfg stack tvb bus_type frame_id frame_length")
    case (Inl e)
    then show ?thesis
      by (simp add: dissect_iso15765_def Let_def thrown_def get_ident_cached [OF c])
  next
    case (Inr x)
    show ?thesis
    proof (cases x)
      case None
      with Inr show ?thesis
        by (simp add: dissect_iso15765_def Let_def get_ident_cached [OF c])
    next
      case (Some dl)
      obtain d l where dl: "dl = (d, l)" by (cases dl)
      obtain st2 info2 call r where
        rf: "reassemble_fragment cfg reassemble tvb p l st info = (st2, info2, call, r)"
        by (cases "reassemble_fragment cfg reassemble tvb p l st info")
      from reassemble_fragment_replay [OF v, where cfg = cfg and reassemble = reassemble
          and tvb = tvb and l = l and st = st and info = info] rf
      have r: "msg_seqid st2 = msg_seqid st"
        "iso15765_frame_table st2 = iso15765_frame_table st"
        "info2 = info"
        "case call of
           None \<Rightarrow> True
         | Some c \<Rightarrow>
             fa_id c = ident_seq info \<and> fa_frag_number c = ident_frag_id info
             \<and> fa_more_frags c = (\<not> ident_last info)
             \<and> fa_frag_data_len c = l_data_length l
             \<and> map_option frame_error (iso15765_frame_table st (ident_seq info)) = Some False"
        by simp_all
      from r(4) have r4: "case call of
           None \<Rightarrow> True
         | Some c \<Rightarrow>
             fa_id c = ident_seq info \<and> fa_frag_number c = ident_frag_id info
             \<and> fa_more_frags c = (\<not> ident_last info)
             \<and> map_option frame_error (iso15765_frame_table st (ident_seq info)) = Some False"
        by (simp split: option.splits)
      show ?thesis
        using Inr Some dl rf r(1-3) r4
        by (cases r)
           (auto simp add: dissect_iso15765_def Let_def thrown_def hand_over_def
              get_ident_cached [OF c] store_ident_cached [OF c] save_info_visited_id [OF v]
              split: prod.splits)
    qed
  qed
  have pd: "proto_data (fst ?D) = proto_data st"
    using all c by (simp add: dissect_proto_data map_upd_triv)
  from all pd show
    "msg_seqid (fst ?D) = msg_seqid st"
    "iso15765_frame_table (fst ?D) = iso15765_frame_table st"
    "proto_data (fst ?D) = proto_data st"
    "res_ident (snd ?D) = info"
    "case res_fragment (snd ?D) of
           None \<Rightarrow> True
         | Some c \<Rightarrow>
             fa_id c = ident_seq info \<and> fa_frag_number c = ident_frag_id info
             \<and> fa_more_frags c = (\<not> ident_last info)
             \<and> map_option frame_error (iso15765_frame_table st (ident_seq info)) = Some False"
    by simp_all
qed


lemma replay_stream:
  assumes "\<forall>i<length fs. proto_data st (k + i) = Some (infos ! i)"
    and "length infos = length fs"
  shows "msg_seqid (fst (dissect_stream cfg reassemble stack True k st fs)) = msg_seqid st
       \<and> iso15765_frame_table (fst (dissect_stream cfg reassemble stack True k st fs))
           = iso15765_frame_table st
       \<and> proto_data (fst (dissect_stream cfg reassemble stack True k st fs)) = proto_data st
       \<and> map res_ident (snd (dissect_stream cfg reassemble stack True k st fs)) = infos
       \<and> list_all2 (\<lambda>info r. case res_fragment r of
                       None \<Rightarrow> True
                     | Some c \<Rightarrow>
                         fa_id c = ident_seq info \<and> fa_frag_number c = ident_frag_id info
                         \<and> fa_more_frags c = (\<not> ident_last info)
                         \<and> map_option frame_error (iso15765_frame_table st (ident_seq info))
                             = Some False)
           infos (snd (dissect_stream cfg reassemble stack True k st fs))"
  using assms
proof (induction fs arbitrary: k st infos)
  case Nil
  then show ?case by simp
next
  case (Cons f fs)
  from Cons.prems(2) obtain info infos' where
    infos: "infos = info # infos'" and len: "length infos' = length fs"
    by (cases infos) auto
  let ?p = "\<lparr>pinfo_num = k, pinfo_visited = True\<rparr>"
  let ?D = "dissect_iso15765 cfg reassemble stack st (lf_tvb f) ?p (lf_bus_type f)
              (lf_frame_id f) (lf_frame_length f)"
  have c: "proto_data st (pinfo_num ?p) = Some info"
    using Cons.prems(1) infos by auto
  have v: "pinfo_visited ?p" by simp
  note step = replay_step [OF c v, of cfg reassemble stack "lf_tvb f" "lf_bus_type f"
      "lf_frame_id f" "lf_frame_length f"]
  have rest: "\<forall>i<length fs. proto_data (fst ?D) (Suc k + i) = Some (infos' ! i)"
  proof (intro allI impI)
    fix i assume "i < length fs"
    then have "proto_data st (k + Suc i) = Some (infos ! Suc i)"
      using Cons.prems(1) by auto
    then show "proto_data (fst ?D) (Suc k + i) = Some (infos' ! i)"
      by (simp add: step(3) infos)
  qed
  note ih = Cons.IH [OF rest len, unfolded step(1) step(2) step(3)]
  from ih step(4) step(5)
  show ?case
    by (simp add: dissect_stream_Cons_fst dissect_stream_Cons_snd infos
        del: dissect_stream.simps(2))
qed

text \<open>Accumulated bytes and the length of the completing fragment.\<close>

lemma frame_after_accumulates:
  assumes "n < 16" and "unat n < length (frag_id_high fr)" and "frag_id_high fr ! unat n \<noteq> 255"
    and "\<not> frame_error (frame_after w n dl fr)"
  shows "frame_offset (frame_after w n dl fr) = frame_offset fr + dl"
    and "frame_len (frame_after w n dl fr) = frame_len fr"
    and "frame_complete (frame_after w n dl fr)
           = (frame_complete fr \<or> frame_offset fr + dl \<ge> frame_len fr)"
proof -
  obtain fr1 x where e: "expand_frag_id w n (new_identifier 0) fr = (fr1, x)"
    by (cases "expand_frag_id w n (new_identifier 0) fr")
  from expand_frag_id_ok [OF assms(1-3), of w "new_identifier 0"] e obtain j where x: "x = Inr j"
    by simp
  from expand_frag_id_fields [of w n "new_identifier 0" fr] e
  have f: "frame_offset fr1 = frame_offset fr" "frame_len fr1 = frame_len fr"
    "frame_complete fr1 = frame_complete fr"
    by simp_all
  from assms(4) e x have ne: "\<not> frame_error fr1"
    by (auto simp add: frame_after_def split: if_splits)
  show "frame_offset (frame_after w n dl fr) = frame_offset fr + dl"
    "frame_len (frame_after w n dl fr) = frame_len fr"
    "frame_complete (frame_after w n dl fr)
           = (frame_complete fr \<or> frame_offset fr + dl \<ge> frame_len fr)"
    using e x ne f by (simp_all add: frame_after_def accumulate_result)
qed

lemma trimmed_length:
  fixes off len dl :: guint32
  assumes "unat off < unat len" and "unat len \<le> unat off + unat dl"
    and "unat off + unat dl < 2 ^ 32"
  shows "off + dl \<ge> len" and "unat (dl - (off + dl - len)) = unat len - unat off"
proof -
  have a: "unat (off + dl) = unat off + unat dl"
    using assms(3) by (simp add: unat_add_lem [THEN iffD1])
  show b: "off + dl \<ge> len" using assms(2) a by (simp add: word_le_nat_alt)
  have c: "dl - (off + dl - len) = len - off" by simp
  have "off \<le> len" using assms(1) by (simp add: word_le_nat_alt)
  then show "unat (dl - (off + dl - len)) = unat len - unat off"
    unfolding c by (simp add: unat_sub)
qed

lemma untrimmed_length:
  fixes off len dl :: guint32
  assumes "unat off + unat dl < unat len"
  shows "\<not> off + dl \<ge> len" and "unat (off + dl) = unat off + unat dl"
proof -
  have "unat len < 2 ^ 32" using unsigned_less [of len] by simp
  then have "unat off + unat dl < 2 ^ 32" using assms by simp
  then show a: "unat (off + dl) = unat off + unat dl"
    by (simp add: unat_add_lem [THEN iffD1])
  show "\<not> off + dl \<ge> len" using assms a by (simp add: word_le_nat_alt)
qed


lemma get_ident_fresh:
  "proto_data st (pinfo_num p) = None \<Longrightarrow> \<not> ident_last (get_ident st p frame_id)"
  by (simp add: get_ident_def new_identifier_def)

text \<open>
  A run of first-pass consecutive frames that are all submitted and stay below the declared
  length: each is submitted whole and not as the last one.
\<close>

lemma cf_run_submitted:
  assumes "list_all2 (\<lambda>f nd. consecutive_frame cfg stack f = Some nd) cfs nds"
    and "iso15765_frame_table st (msg_seqid st) = Some fr"
    and "length (frag_id_high fr) = 16"
    and "\<forall>i<length cfs. proto_data st (k + i) = None"
    and "\<forall>r \<in> set (snd (dissect_stream cfg reassemble stack False k st cfs)).
           res_fragment r \<noteq> None"
    and "unat (frame_offset fr) + sum_list (map (\<lambda>nd. unat (snd nd)) nds) < unat (frame_len fr)"
  shows "\<exists>fr'. iso15765_frame_table (fst (dissect_stream cfg reassemble stack False k st cfs))
                 (msg_seqid st) = Some fr'
           \<and> msg_seqid (fst (dissect_stream cfg reassemble stack False k st cfs)) = msg_seqid st
           \<and> length (frag_id_high fr') = 16
           \<and> frame_len fr' = frame_len fr
           \<and> frame_complete fr' = frame_complete fr
           \<and> unat (frame_offset fr')
               = unat (frame_offset fr) + sum_list (map (\<lambda>nd. unat (snd nd)) nds)
           \<and> map (\<lambda>r. map_option (\<lambda>c. (unat (fa_frag_data_len c), fa_more_frags c))
                         (res_fragment r))
               (snd (dissect_stream cfg reassemble stack False k st cfs))
               = map (\<lambda>nd. Some (unat (snd nd), True)) nds"
  using assms
proof (induction cfs arbitrary: nds k st fr)
  case Nil
  then show ?case by simp
next
  case (Cons f fs)
  from Cons.prems(1) obtain n dl nds' where
    nds: "nds = (n, dl) # nds'" and cf: "consecutive_frame cfg stack f = Some (n, dl)"
    and rest: "list_all2 (\<lambda>f nd. consecutive_frame cfg stack f = Some nd) fs nds'"
    by (auto simp add: list_all2_Cons1)
  from cf have n16: "n < 16" by (rule consecutive_frameD)
  then have un: "unat n < length (frag_id_high fr)"
    using unat_nibble [of n] Cons.prems(3) by simp
  let ?p = "\<lparr>pinfo_num = k, pinfo_visited = False\<rparr>"
  let ?fr = "frame_after (window cfg) n dl fr"
  let ?D = "dissect_iso15765 cfg reassemble stack st (lf_tvb f) ?p (lf_bus_type f)
              (lf_frame_id f) (lf_frame_length f)"
  have sub0: "res_fragment (snd ?D) \<noteq> None"
    using Cons.prems(5) by (simp add: dissect_stream_Cons_snd del: dissect_stream.simps(2))
  have subr: "\<forall>r \<in> set (snd (dissect_stream cfg reassemble stack False (Suc k) (fst ?D) fs)).
                res_fragment r \<noteq> None"
    using Cons.prems(5) by (simp add: dissect_stream_Cons_snd del: dissect_stream.simps(2))
  have fresh0: "proto_data st (pinfo_num ?p) = None" using Cons.prems(4) by auto
  have below0: "unat (frame_offset fr) + unat dl < unat (frame_len fr)"
    using Cons.prems(6) nds by simp
  note arith = untrimmed_length [OF below0]
  from cf_step [OF cf Cons.prems(2), of reassemble k] obtain st' r where
    s: "?D = (st', r)"
    and m: "msg_seqid st' = msg_seqid st"
    and t: "iso15765_frame_table st'
             = (iso15765_frame_table st)(msg_seqid st \<mapsto> ?fr)"
    and pd: "proto_data st' = (proto_data st)(k \<mapsto> res_ident r)"
    and err: "frame_error ?fr \<longrightarrow> res_fragment r = None \<and> map_option fst (res_next r) \<noteq> Some True"
    and full: "unat n < length (frag_id_high fr) \<and> frag_id_high fr ! unat n = 255 \<longrightarrow>
               res_fragment r = None \<and> res_next r = None \<and> res_exn r = Some DissectorBug"
    and opn: "unat n < length (frag_id_high fr) \<and> frag_id_high fr ! unat n \<noteq> 255
              \<and> \<not> frame_error ?fr \<longrightarrow>
               (\<exists>c. res_fragment r = Some c
                  \<and> fa_id c = msg_seqid st
                  \<and> fa_frag_number c = n + ucast (frag_id_high fr ! unat n) * 16
                  \<and> fa_frag_data_len c
                      = (if frame_offset fr + dl \<ge> frame_len fr
                         then dl - (frame_offset fr + dl - frame_len fr) else dl)
                  \<and> fa_more_frags c
                      = (\<not> (ident_last (get_ident st ?p (lf_frame_id f))
                            \<or> frame_offset fr + dl \<ge> frame_len fr)))"
    by blast
  from sub0 s have r0: "res_fragment r \<noteq> None" by simp
  with err have ne: "\<not> frame_error ?fr" by blast
  from r0 full un have c255: "frag_id_high fr ! unat n \<noteq> 255" by auto
  from opn un c255 ne arith(1) get_ident_fresh [OF fresh0, of "lf_frame_id f"]
  obtain c where c: "res_fragment r = Some c" "fa_frag_data_len c = dl" "fa_more_frags c"
    by auto
  note acc = frame_after_accumulates [OF n16 un c255 ne]
  have b: "iso15765_frame_table st' (msg_seqid st') = Some ?fr" by (simp add: m t)
  have l: "length (frag_id_high ?fr) = 16"
    using Cons.prems(3) by (simp add: frame_after_high [OF n16])
  have fresh: "\<forall>i<length fs. proto_data st' (Suc k + i) = None"
  proof (intro allI impI)
    fix i assume "i < length fs"
    then have "proto_data st (k + Suc i) = None" using Cons.prems(4) by auto
    then show "proto_data st' (Suc k + i) = None" by (simp add: pd)
  qed
  have off: "unat (frame_offset ?fr) = unat (frame_offset fr) + unat dl"
    by (simp add: acc(1) arith(2))
  have below: "unat (frame_offset ?fr) + sum_list (map (\<lambda>nd. unat (snd nd)) nds')
                 < unat (frame_len ?fr)"
    using Cons.prems(6) nds by (simp add: off acc(2))
  from subr s have subr': "\<forall>r \<in> set (snd (dissect_stream cfg reassemble stack False (Suc k) st' fs)).
                res_fragment r \<noteq> None"
    by simp
  from Cons.IH [OF rest b l fresh subr' below] obtain fr' where
    ih: "iso15765_frame_table (fst (dissect_stream cfg reassemble stack False (Suc k) st' fs))
           (msg_seqid st') = Some fr'"
      "msg_seqid (fst (dissect_stream cfg reassemble stack False (Suc k) st' fs)) = msg_seqid st'"
      "length (frag_id_high fr') = 16"
      "frame_len fr' = frame_len ?fr"
      "frame_complete fr' = frame_complete ?fr"
      "unat (frame_offset fr')
         = unat (frame_offset ?fr) + sum_list (map (\<lambda>nd. unat (snd nd)) nds')"
      "map (\<lambda>r. map_option (\<lambda>c. (unat (fa_frag_data_len c), fa_more_frags c)) (res_fragment r))
         (snd (dissect_stream cfg reassemble stack False (Suc k) st' fs))
         = map (\<lambda>nd. Some (unat (snd nd), True)) nds'"
    by blast
  show ?case
    using ih c arith
    by (simp add: dissect_stream_Cons_fst dissect_stream_Cons_snd s m nds acc
        del: dissect_stream.simps(2))
qed


lemma submitted_sum:
  assumes "map (\<lambda>r. map_option (\<lambda>c. (unat (fa_frag_data_len c), fa_more_frags c))
                   (res_fragment r)) rs
             = map (\<lambda>d. Some (d, True)) ds @ [Some (e, False)]"
  shows "sum_list (map (\<lambda>r. case res_fragment r of
                              None \<Rightarrow> 0
                            | Some c \<Rightarrow> unat (fa_frag_data_len c)) rs)
           = sum_list ds + e"
proof -
  have "map (\<lambda>r. case res_fragment r of None \<Rightarrow> 0 | Some c \<Rightarrow> unat (fa_frag_data_len c)) rs
          = map (\<lambda>x. case x of None \<Rightarrow> 0 | Some y \<Rightarrow> fst y)
              (map (\<lambda>r. map_option (\<lambda>c. (unat (fa_frag_data_len c), fa_more_frags c))
                           (res_fragment r)) rs)"
    by (simp add: comp_def split: option.splits)
  then show ?thesis
    by (simp only: assms) (simp add: comp_def)
qed

text \<open>The shift of a masked value, and the first matching row of the table.\<close>

lemma ctz_upto_lowest_bit:
  "bit m k \<Longrightarrow> take_bit k m = 0 \<Longrightarrow> k < n \<Longrightarrow> ctz_upto n (m :: nat) = k"
proof (induction n arbitrary: m k)
  case 0
  then show ?case by simp
next
  case (Suc n)
  show ?case
  proof (cases k)
    case 0
    with Suc.prems(1) have "odd m" by (simp add: bit_0)
    then show ?thesis using 0 by simp
  next
    case (Suc k')
    from Suc.prems(2) Suc have e: "even m" and t: "take_bit k' (m div 2) = 0"
      by (auto simp add: take_bit_Suc)
    from Suc.prems(1) Suc have b: "bit (m div 2) k'" by (simp add: bit_Suc)
    from Suc.prems(3) Suc have "k' < n" by simp
    from Suc.IH [OF b t this] e Suc show ?thesis by simp
  qed
qed

lemma ws_ctz_lowest_bit:
  fixes msk :: guint32
  assumes "bit msk k" and "take_bit k msk = 0"
  shows "ws_ctz (unat msk) = k"
proof -
  from assms(1) have k: "k < 32" by (auto dest: bit_imp_le_length)
  have b: "bit (unat msk) k" using assms(1) by (simp add: bit_unsigned_iff)
  have "take_bit k (unat msk) = unat (take_bit k msk)" by (simp add: unsigned_take_bit_eq)
  then have t: "take_bit k (unat msk) = 0" using assms(2) by simp
  show ?thesis unfolding ws_ctz_def by (rule ctz_upto_lowest_bit [OF b t]) (use k in simp)
qed

lemma masked_guint32_value_lowest_bit:
  "bit msk k \<Longrightarrow> take_bit k msk = 0 \<Longrightarrow> masked_guint32_value v msk = drop_bit k (v AND msk)"
  by (simp add: masked_guint32_value_def ws_ctz_lowest_bit)

lemma find_mapping_row_first:
  assumes "\<forall>m \<in> set pre. extended_address m \<noteq> ext_id
              \<or> can_id m AND can_id_mask m \<noteq> cid AND can_id_mask m"
    and "extended_address r = ext_id"
    and "can_id r AND can_id_mask r = cid AND can_id_mask r"
  shows "find_mapping_row ext_id cid (pre @ r # post) = Some r"
  using assms by (induction pre) auto

text \<open>The window check along a message.\<close>

lemma spec_highest_seen_snoc: "spec_highest_seen (ids @ [x]) = max x (spec_highest_seen ids)"
  by (simp add: spec_highest_seen_def)

lemma spec_lags_prefix: "i < length ids \<Longrightarrow> spec_lags w (ids @ ys) i = spec_lags w ids i"
  by (simp add: spec_lags_def nth_append)

lemma spec_lags_next:
  "spec_lags w (ids @ x # ys) (length ids)
     = ((of_nat x :: guint32) + w < of_nat (spec_highest_seen ids))"
  by (simp add: spec_lags_def)

lemma spec_dropped_prefix:
  "j < length ids \<Longrightarrow> spec_dropped w (ids @ ys) j = spec_dropped w ids j"
  by (auto simp add: spec_dropped_def list_ex_iff spec_lags_prefix)

lemma spec_dropped_Suc:
  "spec_dropped w ids (Suc j) = (spec_dropped w ids j \<or> spec_lags w ids (Suc j))"
  by (simp add: spec_dropped_def list_ex_append)

lemma spec_dropped_next:
  "spec_dropped w (ids @ x # ys) (length ids)
     = (list_ex (spec_lags w ids) [0..<length ids]
        \<or> (of_nat x :: guint32) + w < of_nat (spec_highest_seen ids))"
  by (auto simp add: spec_dropped_def list_ex_append list_ex_iff spec_lags_prefix spec_lags_next)

lemma spec_errored_snoc:
  "list_ex (spec_lags w (ids @ [x])) [0..<length (ids @ [x])]
     = spec_dropped w (ids @ [x]) (length ids)"
  by (simp add: spec_dropped_def)

lemma spec_expanded_ids_append:
  "spec_expanded_ids s (xs @ ys) = spec_expanded_ids s xs @ spec_expanded_ids (s @ xs) ys"
  by (induction xs arbitrary: s) simp_all

lemma frame_after_dropped:
  assumes "frame_error (frame_after w n dl fr)"
  shows "frame_offset (frame_after w n dl fr) = frame_offset fr"
    and "frame_len (frame_after w n dl fr) = frame_len fr"
    and "frame_complete (frame_after w n dl fr) = frame_complete fr"
    and "last_frag_id (frame_after w n dl fr) = last_frag_id fr"
proof -
  obtain fr1 x where e: "expand_frag_id w n (new_identifier 0) fr = (fr1, x)"
    by (cases "expand_frag_id w n (new_identifier 0) fr")
  have "frame_after w n dl fr = fr1"
  proof (cases x)
    case (Inl a)
    with e show ?thesis by (simp add: frame_after_def)
  next
    case (Inr j)
    show ?thesis
    proof (cases "frame_error fr1")
      case True
      with e Inr show ?thesis by (simp add: frame_after_def)
    next
      case False
      with e Inr have "frame_after w n dl fr = fst (accumulate (ident_frag_id j) dl j fr1)"
        by (simp add: frame_after_def)
      with assms accumulate_fields [of "ident_frag_id j" dl j fr1] False show ?thesis by simp
    qed
  qed
  with expand_frag_id_fields [of w n "new_identifier 0" fr] e
  show "frame_offset (frame_after w n dl fr) = frame_offset fr"
    and "frame_len (frame_after w n dl fr) = frame_len fr"
    and "frame_complete (frame_after w n dl fr) = frame_complete fr"
    and "last_frag_id (frame_after w n dl fr) = last_frag_id fr"
    by simp_all
qed

lemma frame_after_last:
  assumes "n < 16" and "unat n < length (frag_id_high fr)" and "frag_id_high fr ! unat n \<noteq> 255"
    and "\<not> frame_error (frame_after w n dl fr)"
  shows "last_frag_id (frame_after w n dl fr)
           = (if n + ucast (frag_id_high fr ! unat n) * 16 > last_frag_id fr
              then n + ucast (frag_id_high fr ! unat n) * 16 else last_frag_id fr)"
proof -
  obtain fr1 x where e: "expand_frag_id w n (new_identifier 0) fr = (fr1, x)"
    by (cases "expand_frag_id w n (new_identifier 0) fr")
  from expand_frag_id_ok [OF assms(1-3), of w "new_identifier 0"] e
  have x: "x = Inr ((new_identifier 0)\<lparr>ident_frag_id := n + ucast (frag_id_high fr ! unat n) * 16\<rparr>)"
    by simp
  from expand_frag_id_fields [of w n "new_identifier 0" fr] e
  have f: "last_frag_id fr1 = last_frag_id fr" by simp
  from assms(4) e x have ne: "\<not> frame_error fr1"
    by (auto simp add: frame_after_def split: if_splits)
  show ?thesis
    using e x ne f by (simp add: frame_after_def accumulate_def Let_def)
qed


text \<open>One first-pass consecutive frame on an entry whose counter is below its limit.\<close>

lemma cf_step_window:
  fixes st :: "'r iso15765_state"
    and reassemble :: "'r \<Rightarrow> fragment_add \<Rightarrow> 'r \<times> (exn + tvbuff option)"
    and k :: nat and x :: nat and e :: bool
    and D :: "'r iso15765_state \<times> dissect_result"
  assumes cf: "consecutive_frame cfg stack f = Some (n, dl)"
    and bound: "iso15765_frame_table st (msg_seqid st) = Some fr"
    and len16: "length (frag_id_high fr) = 16"
    and c: "unat (frag_id_high fr ! unat n) < 255"
  defines "x \<equiv> unat n + 16 * unat (frag_id_high fr ! unat n)"
    and "D \<equiv> dissect_iso15765 cfg reassemble stack st (lf_tvb f)
               \<lparr>pinfo_num = k, pinfo_visited = False\<rparr>
               (lf_bus_type f) (lf_frame_id f) (lf_frame_length f)"
    and "e \<equiv> frame_error fr
               \<or> (of_nat x :: guint32) + window cfg < ucast (last_frag_id fr)"
  shows "\<exists>fr'. iso15765_frame_table (fst D) = (iso15765_frame_table st)(msg_seqid st \<mapsto> fr')
           \<and> msg_seqid (fst D) = msg_seqid st
           \<and> proto_data (fst D) = (proto_data st)(k \<mapsto> res_ident (snd D))
           \<and> frame_error fr' = e
           \<and> (res_fragment (snd D) = None) = e
           \<and> (e \<longrightarrow> map_option fst (res_next (snd D)) \<noteq> Some True)
           \<and> frame_offset fr' = (if e then frame_offset fr else frame_offset fr + dl)
           \<and> frame_len fr' = frame_len fr
           \<and> frame_complete fr'
               = (if e then frame_complete fr
                  else (frame_complete fr \<or> frame_offset fr + dl \<ge> frame_len fr))
           \<and> (\<not> e \<longrightarrow> unat (last_frag_id fr') = max x (unat (last_frag_id fr)))
           \<and> frag_id_high fr' = (frag_id_high fr)[unat n := frag_id_high fr ! unat n + 1]
           \<and> ident_seq (res_ident (snd D)) = msg_seqid st
           \<and> unat (ident_frag_id (res_ident (snd D))) = x
           \<and> (\<not> e \<longrightarrow>
                (\<exists>c. res_fragment (snd D) = Some c
                   \<and> fa_frag_data_len c
                       = (if frame_offset fr + dl \<ge> frame_len fr
                          then dl - (frame_offset fr + dl - frame_len fr) else dl)
                   \<and> fa_more_frags c
                       = (\<not> (ident_last (get_ident st \<lparr>pinfo_num = k, pinfo_visited = False\<rparr>
                                           (lf_frame_id f))
                             \<or> frame_offset fr + dl \<ge> frame_len fr))))"
proof -
  let ?fr = "frame_after (window cfg) n dl fr"
  let ?c = "frag_id_high fr ! unat n"
  let ?id = "n + ucast ?c * 16"
  from cf have n16: "n < 16" by (rule consecutive_frameD)
  then have un: "unat n < length (frag_id_high fr)" using unat_nibble [of n] len16 by simp
  from c have c255: "?c \<noteq> 255" by auto
  have idx: "unat ?id = x" unfolding x_def by (rule unat_expanded_id [OF n16])
  have idw: "(ucast ?id :: guint32) = of_nat x"
    by (simp only: idx [symmetric] of_nat_unat)
  have err: "frame_error ?fr = e"
    unfolding e_def frame_after_error [OF n16 un c255, of "window cfg" dl] idw ..
  from cf_step [OF cf bound, of reassemble k] un c255 obtain st' r where
    s: "dissect_iso15765 cfg reassemble stack st (lf_tvb f)
          \<lparr>pinfo_num = k, pinfo_visited = False\<rparr>
          (lf_bus_type f) (lf_frame_id f) (lf_frame_length f) = (st', r)"
    and m: "msg_seqid st' = msg_seqid st"
    and t: "iso15765_frame_table st'
             = (iso15765_frame_table st)(msg_seqid st \<mapsto> ?fr)"
    and pd: "proto_data st' = (proto_data st)(k \<mapsto> res_ident r)"
    and sq: "ident_seq (res_ident r) = msg_seqid st"
    and er: "frame_error ?fr \<longrightarrow>
               res_fragment r = None \<and> map_option fst (res_next r) \<noteq> Some True"
    and fi: "ident_frag_id (res_ident r) = ?id"
    and opn: "\<not> frame_error ?fr \<longrightarrow>
               (\<exists>c. res_fragment r = Some c
                  \<and> fa_id c = msg_seqid st
                  \<and> fa_frag_number c = ?id
                  \<and> fa_frag_data_len c
                      = (if frame_offset fr + dl \<ge> frame_len fr
                         then dl - (frame_offset fr + dl - frame_len fr) else dl)
                  \<and> fa_more_frags c
                      = (\<not> (ident_last (get_ident st \<lparr>pinfo_num = k, pinfo_visited = False\<rparr>
                                          (lf_frame_id f))
                            \<or> frame_offset fr + dl \<ge> frame_len fr)))"
    by blast
  have D: "D = (st', r)" unfolding D_def by (rule s)
  have none: "(res_fragment r = None) = e"
    using er opn err by auto
  have nxt: "e \<longrightarrow> map_option fst (res_next r) \<noteq> Some True"
    using er err by simp
  have off: "frame_offset ?fr = (if e then frame_offset fr else frame_offset fr + dl)"
    and ln: "frame_len ?fr = frame_len fr"
    and cm: "frame_complete ?fr
               = (if e then frame_complete fr
                  else (frame_complete fr \<or> frame_offset fr + dl \<ge> frame_len fr))"
    using frame_after_dropped [of "window cfg" n dl fr]
          frame_after_accumulates [OF n16 un c255, of "window cfg" dl] err
    by (cases e; simp)+
  have lst: "\<not> e \<longrightarrow> unat (last_frag_id ?fr) = max x (unat (last_frag_id fr))"
  proof
    assume "\<not> e"
    then have "\<not> frame_error ?fr" using err by simp
    from frame_after_last [OF n16 un c255 this]
    show "unat (last_frag_id ?fr) = max x (unat (last_frag_id fr))"
      using idx by (auto simp add: word_less_nat_alt max_def)
  qed
  have hi: "frag_id_high ?fr = (frag_id_high fr)[unat n := ?c + 1]"
    by (rule frame_after_high [OF n16])
  have fx: "unat (ident_frag_id (res_ident r)) = x" using fi idx by simp
  have call: "\<not> e \<longrightarrow>
                (\<exists>c. res_fragment r = Some c
                   \<and> fa_frag_data_len c
                       = (if frame_offset fr + dl \<ge> frame_len fr
                          then dl - (frame_offset fr + dl - frame_len fr) else dl)
                   \<and> fa_more_frags c
                       = (\<not> (ident_last (get_ident st \<lparr>pinfo_num = k, pinfo_visited = False\<rparr>
                                           (lf_frame_id f))
                             \<or> frame_offset fr + dl \<ge> frame_len fr)))"
    using opn err by auto
  show ?thesis
    unfolding D
    using t m pd err none nxt off ln cm lst hi sq fx call
    by (intro exI [of _ ?fr]) simp
qed


lemma spec_errored_next:
  "list_ex (spec_lags w (ids @ [x])) [0..<length (ids @ [x])]
     = (list_ex (spec_lags w ids) [0..<length ids]
        \<or> (of_nat x :: guint32) + w < of_nat (spec_highest_seen ids))"
  unfolding spec_errored_snoc by (rule spec_dropped_next)

text \<open>
  A run of first-pass consecutive frames under the window check. \<open>seen\<close> holds the low ids
  of the fragments of the message so far.
\<close>

lemma cf_run_window:
  fixes st :: "'r iso15765_state"
  assumes "list_all2 (\<lambda>f nd. consecutive_frame cfg stack f = Some nd) cfs nds"
    and "iso15765_frame_table st (msg_seqid st) = Some fr"
    and "length (frag_id_high fr) = 16"
    and "\<forall>n<16. unat (frag_id_high fr ! unat n) = count_list seen n"
    and "\<forall>n \<in> set (map fst nds). count_list (seen @ map fst nds) n \<le> 255"
    and "frame_error fr
           = list_ex (spec_lags (window cfg) (spec_expanded_ids [] seen)) [0..<length seen]"
    and "\<not> frame_error fr \<longrightarrow>
           unat (last_frag_id fr) = spec_highest_seen (spec_expanded_ids [] seen)"
  shows "\<exists>fr'. iso15765_frame_table (fst (dissect_stream cfg reassemble stack False k st cfs))
                 (msg_seqid st) = Some fr'
           \<and> msg_seqid (fst (dissect_stream cfg reassemble stack False k st cfs)) = msg_seqid st
           \<and> frame_error fr'
               = list_ex (spec_lags (window cfg) (spec_expanded_ids [] (seen @ map fst nds)))
                   [0..<length (seen @ map fst nds)]
           \<and> (\<not> frame_error fr' \<longrightarrow>
                 unat (last_frag_id fr')
                   = spec_highest_seen (spec_expanded_ids [] (seen @ map fst nds)))
           \<and> frame_offset fr'
               = frame_offset fr
                 + sum_list (map (\<lambda>j. if spec_dropped (window cfg)
                                            (spec_expanded_ids [] (seen @ map fst nds))
                                            (length seen + j)
                                       then 0 else snd (nds ! j)) [0..<length nds])
           \<and> frame_len fr' = frame_len fr
           \<and> map (\<lambda>r. res_fragment r = None)
                 (snd (dissect_stream cfg reassemble stack False k st cfs))
               = map (\<lambda>j. spec_dropped (window cfg) (spec_expanded_ids [] (seen @ map fst nds))
                             (length seen + j)) [0..<length nds]
           \<and> list_all (\<lambda>r. res_fragment r = None \<longrightarrow> map_option fst (res_next r) \<noteq> Some True)
                 (snd (dissect_stream cfg reassemble stack False k st cfs))"
  using assms
proof (induction cfs arbitrary: nds seen st fr k)
  case Nil
  then show ?case by auto
next
  case (Cons f fs)
  let ?w = "window cfg"
  from Cons.prems(1) obtain n dl nds' where
    nds: "nds = (n, dl) # nds'" and cf: "consecutive_frame cfg stack f = Some (n, dl)"
    and rest: "list_all2 (\<lambda>f nd. consecutive_frame cfg stack f = Some nd) fs nds'"
    by (auto simp add: list_all2_Cons1)
  from cf have n16: "n < 16" by (rule consecutive_frameD)
  then have un: "unat n < length (frag_id_high fr)"
    using unat_nibble [of n] Cons.prems(3) by simp
  let ?c = "frag_id_high fr ! unat n"
  let ?x = "unat n + 16 * unat ?c"
  let ?before = "spec_expanded_ids [] seen"
  let ?ids = "spec_expanded_ids [] (seen @ map fst nds)"
  let ?e = "frame_error fr \<or> (of_nat ?x :: guint32) + ?w < ucast (last_frag_id fr)"
  let ?D = "dissect_iso15765 cfg reassemble stack st (lf_tvb f)
              \<lparr>pinfo_num = k, pinfo_visited = False\<rparr>
              (lf_bus_type f) (lf_frame_id f) (lf_frame_length f)"
  have cnt: "unat ?c = count_list seen n" using Cons.prems(4) n16 by simp
  have "count_list (seen @ map fst nds) n \<le> 255" using Cons.prems(5) nds by simp
  then have c: "unat ?c < 255" using cnt nds by simp
  then have cne: "?c \<noteq> 255" by auto
  have l0: "length ?before = length seen" by (simp add: spec_expanded_ids_length)
  have ids1: "spec_expanded_ids [] (seen @ [n]) = ?before @ [?x]"
    by (simp add: spec_expanded_ids_append cnt)
  have ids: "?ids = ?before @ ?x # spec_expanded_ids (seen @ [n]) (map fst nds')"
    by (simp add: spec_expanded_ids_append cnt nds)
  have top: "\<not> frame_error fr \<Longrightarrow>
               (ucast (last_frag_id fr) :: guint32) = of_nat (spec_highest_seen ?before)"
  proof -
    assume "\<not> frame_error fr"
    with Cons.prems(7) have "unat (last_frag_id fr) = spec_highest_seen ?before" by simp
    then have "(of_nat (unat (last_frag_id fr)) :: guint32) = of_nat (spec_highest_seen ?before)"
      by (rule arg_cong)
    then show "(ucast (last_frag_id fr) :: guint32) = of_nat (spec_highest_seen ?before)"
      by (simp only: of_nat_unat)
  qed
  have e1: "?e = list_ex (spec_lags ?w (spec_expanded_ids [] (seen @ [n])))
                   [0..<length (seen @ [n])]"
  proof (cases "frame_error fr")
    case True
    then show ?thesis
      using Cons.prems(6) spec_errored_next [of ?w ?before ?x] by (simp add: ids1 l0)
  next
    case False
    then show ?thesis
      using Cons.prems(6) spec_errored_next [of ?w ?before ?x] top by (simp add: ids1 l0)
  qed
  have e0: "?e = spec_dropped ?w ?ids (length seen)"
  proof -
    have "spec_dropped ?w ?ids (length seen)
            = (list_ex (spec_lags ?w ?before) [0..<length ?before]
               \<or> (of_nat ?x :: guint32) + ?w < of_nat (spec_highest_seen ?before))"
      unfolding ids using spec_dropped_next [of ?w ?before ?x] by (simp only: l0)
    also have "\<dots> = list_ex (spec_lags ?w (spec_expanded_ids [] (seen @ [n])))
                        [0..<length (seen @ [n])]"
      using spec_errored_next [of ?w ?before ?x] by (simp add: ids1 l0)
    finally show ?thesis using e1 by simp
  qed
  let ?d = "spec_dropped ?w ?ids (length seen)"
  from cf_step_window [OF cf Cons.prems(2) Cons.prems(3) c, where reassemble = reassemble
      and k = k, unfolded e0] obtain fr1 where
    t: "iso15765_frame_table (fst ?D) = (iso15765_frame_table st)(msg_seqid st \<mapsto> fr1)"
    and m: "msg_seqid (fst ?D) = msg_seqid st"
    and er: "frame_error fr1 = ?d"
    and none: "(res_fragment (snd ?D) = None) = ?d"
    and nxt: "?d \<longrightarrow> map_option fst (res_next (snd ?D)) \<noteq> Some True"
    and off: "frame_offset fr1 = (if ?d then frame_offset fr else frame_offset fr + dl)"
    and ln: "frame_len fr1 = frame_len fr"
    and lst: "\<not> ?d \<longrightarrow> unat (last_frag_id fr1) = max ?x (unat (last_frag_id fr))"
    and hi: "frag_id_high fr1 = (frag_id_high fr)[unat n := ?c + 1]"
    by (elim exE conjE) (rule that; assumption)
  have b: "iso15765_frame_table (fst ?D) (msg_seqid (fst ?D)) = Some fr1" by (simp add: m t)
  have l: "length (frag_id_high fr1) = 16" using Cons.prems(3) by (simp add: hi)
  have rel: "\<forall>m<16. unat (frag_id_high fr1 ! unat m) = count_list (seen @ [n]) m"
  proof (intro allI impI)
    fix m :: guint16
    assume m16: "m < 16"
    show "unat (frag_id_high fr1 ! unat m) = count_list (seen @ [n]) m"
    proof (cases "m = n")
      case True
      then show ?thesis
        using un cnt cne by (simp add: hi unat_byte_succ)
    next
      case False
      then have "unat m \<noteq> unat n" by (simp add: word_unat_eq_iff)
      then show ?thesis
        using Cons.prems(4) m16 False by (simp add: hi)
    qed
  qed
  have lim: "\<forall>x \<in> set (map fst nds'). count_list ((seen @ [n]) @ map fst nds') x \<le> 255"
    using Cons.prems(5) nds by simp
  have er1: "frame_error fr1
               = list_ex (spec_lags ?w (spec_expanded_ids [] (seen @ [n]))) [0..<length (seen @ [n])]"
    using er e1 e0 by simp
  have hi1: "\<not> frame_error fr1 \<longrightarrow>
               unat (last_frag_id fr1) = spec_highest_seen (spec_expanded_ids [] (seen @ [n]))"
  proof
    assume a: "\<not> frame_error fr1"
    then have nd: "\<not> ?d" using er by simp
    then have ne: "\<not> ?e" using e0 by simp
    then have "\<not> frame_error fr" by simp
    with Cons.prems(7) have "unat (last_frag_id fr) = spec_highest_seen ?before" by simp
    with lst nd show "unat (last_frag_id fr1) = spec_highest_seen (spec_expanded_ids [] (seen @ [n]))"
      by (simp add: ids1 spec_highest_seen_snoc)
  qed
  have same: "(seen @ [n]) @ map fst nds' = seen @ map fst nds" by (simp add: nds)
  from Cons.IH [OF rest b l rel lim er1 hi1, of "Suc k", unfolded same m] obtain fr' where
    ih: "iso15765_frame_table (fst (dissect_stream cfg reassemble stack False (Suc k) (fst ?D) fs))
           (msg_seqid st) = Some fr'"
      "msg_seqid (fst (dissect_stream cfg reassemble stack False (Suc k) (fst ?D) fs))
         = msg_seqid st"
      "frame_error fr' = list_ex (spec_lags ?w ?ids) [0..<length (seen @ map fst nds)]"
      "\<not> frame_error fr' \<longrightarrow> unat (last_frag_id fr') = spec_highest_seen ?ids"
      "frame_offset fr'
         = frame_offset fr1
           + sum_list (map (\<lambda>j. if spec_dropped ?w ?ids (length (seen @ [n]) + j)
                                 then 0 else snd (nds' ! j)) [0..<length nds'])"
      "frame_len fr' = frame_len fr1"
      "map (\<lambda>r. res_fragment r = None)
         (snd (dissect_stream cfg reassemble stack False (Suc k) (fst ?D) fs))
         = map (\<lambda>j. spec_dropped ?w ?ids (length (seen @ [n]) + j)) [0..<length nds']"
      "list_all (\<lambda>r. res_fragment r = None \<longrightarrow> map_option fst (res_next r) \<noteq> Some True)
         (snd (dissect_stream cfg reassemble stack False (Suc k) (fst ?D) fs))"
    by blast
  have heads: "map (\<lambda>j. spec_dropped ?w ?ids (length seen + j)) [0..<length nds]
                 = ?d # map (\<lambda>j. spec_dropped ?w ?ids (length (seen @ [n]) + j)) [0..<length nds']"
    by (simp add: nds map_upt_Suc del: upt_Suc)
  have sums: "map (\<lambda>j. if spec_dropped ?w ?ids (length seen + j) then 0 else snd (nds ! j))
                [0..<length nds]
                = (if ?d then 0 else dl)
                  # map (\<lambda>j. if spec_dropped ?w ?ids (length (seen @ [n]) + j)
                               then 0 else snd (nds' ! j)) [0..<length nds']"
    by (simp add: nds map_upt_Suc del: upt_Suc cong: if_cong)
  have offs: "frame_offset fr'
                = frame_offset fr
                  + sum_list (map (\<lambda>j. if spec_dropped ?w ?ids (length seen + j)
                                        then 0 else snd (nds ! j)) [0..<length nds])"
    unfolding ih(5) off sums by simp
  have res: "map (\<lambda>r. res_fragment r = None)
               (snd (dissect_stream cfg reassemble stack False k st (f # fs)))
               = map (\<lambda>j. spec_dropped ?w ?ids (length seen + j)) [0..<length nds]"
    unfolding dissect_stream_Cons_snd heads
    using none ih(7) by simp
  have all: "list_all (\<lambda>r. res_fragment r = None \<longrightarrow> map_option fst (res_next r) \<noteq> Some True)
               (snd (dissect_stream cfg reassemble stack False k st (f # fs)))"
    unfolding dissect_stream_Cons_snd
    using none nxt ih(8) by simp
  show ?case
    unfolding dissect_stream_Cons_fst
    using ih(1-4) offs ih(6) ln res all
    by (intro exI [of _ fr']) simp
qed


lemma spec_dropped_0: "spec_dropped w ids 0 = False"
  by (simp add: spec_dropped_def spec_lags_def spec_highest_seen_def)

text \<open>
  Completion of a message whose fragments all reach reassembly, for any reassembly routines:
  the lengths and flags submitted, and the completion flag.
\<close>

lemma first_pass_completion:
  assumes ff: "first_frame cfg stack f = Some (full_len, dl0)"
    and cfs: "list_all2 (\<lambda>f nd. consecutive_frame cfg stack f = Some nd) cfs nds"
    and fresh: "\<forall>i \<le> length cfs. proto_data st (k + i) = None"
    and sub: "\<forall>r \<in> set (snd (dissect_stream cfg reassemble stack False k st (f # cfs))).
                res_fragment r \<noteq> None"
    and before: "sum_list (butlast (unat dl0 # map (\<lambda>nd. unat (snd nd)) nds)) < unat full_len"
    and reach: "unat full_len \<le> sum_list (unat dl0 # map (\<lambda>nd. unat (snd nd)) nds)"
    and nowrap: "sum_list (unat dl0 # map (\<lambda>nd. unat (snd nd)) nds) < 2 ^ 32"
  shows "map (\<lambda>r. map_option (\<lambda>c. (unat (fa_frag_data_len c), fa_more_frags c))
                 (res_fragment r))
           (snd (dissect_stream cfg reassemble stack False k st (f # cfs)))
           = map (\<lambda>d. Some (d, True)) (butlast (unat dl0 # map (\<lambda>nd. unat (snd nd)) nds))
             @ [Some (unat full_len
                        - sum_list (butlast (unat dl0 # map (\<lambda>nd. unat (snd nd)) nds)),
                      False)]
       \<and> sum_list (map (\<lambda>r. case res_fragment r of
                                None \<Rightarrow> 0
                              | Some c \<Rightarrow> unat (fa_frag_data_len c))
                     (snd (dissect_stream cfg reassemble stack False k st (f # cfs))))
           = unat full_len
       \<and> map_option (\<lambda>fr. (frame_complete fr, frame_len fr))
           (iso15765_frame_table (fst (dissect_stream cfg reassemble stack False k st (f # cfs)))
              (msg_seqid st + 1))
           = Some (True, full_len)"
proof -
  let ?R = "dissect_stream cfg reassemble stack False k st (f # cfs)"
  let ?p = "\<lparr>pinfo_num = k, pinfo_visited = False\<rparr>"
  let ?s = "msg_seqid st + 1"
  let ?fr0 = "(new_frame ?s full_len)
                \<lparr>frag_id_high := (replicate 16 0)[0 := 1], frame_offset := dl0,
                 frame_complete := (dl0 \<ge> full_len)\<rparr>"
  let ?h = "\<lambda>r. map_option (\<lambda>c. (unat (fa_frag_data_len c), fa_more_frags c)) (res_fragment r)"
  have "proto_data st (k + 0) = None" using fresh by blast
  then have fresh0: "proto_data st (pinfo_num ?p) = None" by simp
  from ff_step [OF ff, of reassemble st k] get_ident_fresh [OF fresh0, of "lf_frame_id f"]
  obtain st1 r1 c1 where
    s1: "dissect_iso15765 cfg reassemble stack st (lf_tvb f) ?p (lf_bus_type f) (lf_frame_id f)
           (lf_frame_length f) = (st1, r1)"
    and m1: "msg_seqid st1 = ?s"
    and t1: "iso15765_frame_table st1 = (iso15765_frame_table st)(?s \<mapsto> ?fr0)"
    and pd1: "proto_data st1 = (proto_data st)(k \<mapsto> res_ident r1)"
    and c1: "res_fragment r1 = Some c1"
      "fa_frag_data_len c1 = (if dl0 \<ge> full_len then full_len else dl0)"
      "fa_more_frags c1 = (\<not> dl0 \<ge> full_len)"
    by auto
  have main: "map ?h (snd ?R)
           = map (\<lambda>d. Some (d, True)) (butlast (unat dl0 # map (\<lambda>nd. unat (snd nd)) nds))
             @ [Some (unat full_len
                        - sum_list (butlast (unat dl0 # map (\<lambda>nd. unat (snd nd)) nds)),
                      False)]
       \<and> map_option (\<lambda>fr. (frame_complete fr, frame_len fr))
           (iso15765_frame_table (fst ?R) ?s) = Some (True, full_len)"
  proof (cases cfs rule: rev_cases)
    case Nil
    with cfs have nds: "nds = []" by simp
    from reach nds have ge: "dl0 \<ge> full_len" by (simp add: word_le_nat_alt)
    show ?thesis
      using c1 ge by (simp add: Nil nds s1 t1 new_frame_def)
  next
    case (snoc cfs' fl)
    from cfs snoc obtain nds' nd where
      nds: "nds = nds' @ [nd]"
      and cfs': "list_all2 (\<lambda>f nd. consecutive_frame cfg stack f = Some nd) cfs' nds'"
      and cfl: "consecutive_frame cfg stack fl = Some nd"
      by (auto simp add: list_all2_append1 list_all2_Cons1)
    obtain n dl where nd: "nd = (n, dl)" by (cases nd)
    let ?pre = "sum_list (map (\<lambda>nd. unat (snd nd)) nds')"
    from before nds have bef: "unat dl0 + ?pre < unat full_len" by simp
    from reach nds nd have rea: "unat full_len \<le> unat dl0 + ?pre + unat dl" by simp
    from nowrap nds nd have now: "unat dl0 + ?pre + unat dl < 2 ^ 32" by simp
    from bef have lt0: "\<not> dl0 \<ge> full_len" by (simp add: word_le_nat_alt)
    let ?run = "dissect_stream cfg reassemble stack False (Suc k) st1 cfs'"
    let ?kl = "Suc (k + length cfs')"
    let ?pl = "\<lparr>pinfo_num = ?kl, pinfo_visited = False\<rparr>"
    let ?Dl = "dissect_iso15765 cfg reassemble stack (fst ?run) (lf_tvb fl) ?pl (lf_bus_type fl)
                 (lf_frame_id fl) (lf_frame_length fl)"
    have fstR: "fst ?R = fst ?Dl"
      by (simp add: snoc dissect_stream_Cons_fst dissect_stream_append_fst s1
          del: dissect_stream.simps(2))
    have sndR: "snd ?R = r1 # snd ?run @ [snd ?Dl]"
      by (simp add: snoc dissect_stream_Cons_fst dissect_stream_Cons_snd
          dissect_stream_append_snd s1 del: dissect_stream.simps(2))
    have b1: "iso15765_frame_table st1 (msg_seqid st1) = Some ?fr0" by (simp add: m1 t1)
    have l1: "length (frag_id_high ?fr0) = 16" by simp
    have fresh1: "\<forall>i<length cfs'. proto_data st1 (Suc k + i) = None"
    proof (intro allI impI)
      fix i assume "i < length cfs'"
      then have "Suc i \<le> length cfs" using snoc by simp
      with fresh have "proto_data st (k + Suc i) = None" by blast
      then show "proto_data st1 (Suc k + i) = None" by (simp add: pd1)
    qed
    have sub1: "\<forall>r \<in> set (snd ?run). res_fragment r \<noteq> None"
      using sub [unfolded sndR] by simp
    have below1: "unat (frame_offset ?fr0) + ?pre < unat (frame_len ?fr0)"
      using bef by (simp add: new_frame_def)
    from cf_run_submitted [OF cfs' b1 l1 fresh1 sub1 below1] obtain frp where
      bp: "iso15765_frame_table (fst ?run) (msg_seqid st1) = Some frp"
      and mp: "msg_seqid (fst ?run) = msg_seqid st1"
      and lp: "length (frag_id_high frp) = 16"
      and lenp: "frame_len frp = frame_len ?fr0"
      and offp: "unat (frame_offset frp) = unat (frame_offset ?fr0) + ?pre"
      and hp: "map ?h (snd ?run) = map (\<lambda>nd. Some (unat (snd nd), True)) nds'"
      by blast
    from lenp have lenp': "frame_len frp = full_len" by (simp add: new_frame_def)
    from offp have offp': "unat (frame_offset frp) = unat dl0 + ?pre" by simp
    from bp mp have bp': "iso15765_frame_table (fst ?run) (msg_seqid (fst ?run)) = Some frp"
      by simp
    have freshl: "proto_data (fst ?run) (pinfo_num ?pl) = None"
    proof -
      have "Suc (length cfs') \<le> length cfs" using snoc by simp
      with fresh have "proto_data st (k + Suc (length cfs')) = None" by blast
      then show ?thesis by (simp add: dissect_stream_proto_data pd1)
    qed
    from cfl nd have cfl': "consecutive_frame cfg stack fl = Some (n, dl)" by simp
    from cfl' have n16: "n < 16" by (rule consecutive_frameD)
    then have un: "unat n < length (frag_id_high frp)" using unat_nibble [of n] lp by simp
    let ?frl = "frame_after (window cfg) n dl frp"
    have a1: "unat (frame_offset frp) < unat (frame_len frp)" using bef offp' lenp' by simp
    have a2: "unat (frame_len frp) \<le> unat (frame_offset frp) + unat dl"
      using rea offp' lenp' by simp
    have a3: "unat (frame_offset frp) + unat dl < 2 ^ 32" using now offp' by simp
    note arith = trimmed_length [OF a1 a2 a3]
    from cf_step [OF cfl' bp', of reassemble ?kl] obtain stl rl where
      sl: "?Dl = (stl, rl)"
      and tl: "iso15765_frame_table stl
               = (iso15765_frame_table (fst ?run))(msg_seqid (fst ?run) \<mapsto> ?frl)"
      and err: "frame_error ?frl \<longrightarrow>
                  res_fragment rl = None \<and> map_option fst (res_next rl) \<noteq> Some True"
      and full: "unat n < length (frag_id_high frp) \<and> frag_id_high frp ! unat n = 255 \<longrightarrow>
                 res_fragment rl = None \<and> res_next rl = None \<and> res_exn rl = Some DissectorBug"
      and opn: "unat n < length (frag_id_high frp) \<and> frag_id_high frp ! unat n \<noteq> 255
                \<and> \<not> frame_error ?frl \<longrightarrow>
                 (\<exists>c. res_fragment rl = Some c
                    \<and> fa_id c = msg_seqid (fst ?run)
                    \<and> fa_frag_number c = n + ucast (frag_id_high frp ! unat n) * 16
                    \<and> fa_frag_data_len c
                        = (if frame_offset frp + dl \<ge> frame_len frp
                           then dl - (frame_offset frp + dl - frame_len frp) else dl)
                    \<and> fa_more_frags c
                        = (\<not> (ident_last (get_ident (fst ?run) ?pl (lf_frame_id fl))
                              \<or> frame_offset frp + dl \<ge> frame_len frp)))"
      by blast
    from sub [unfolded sndR] sl have r0: "res_fragment rl \<noteq> None" by simp
    with err have ne: "\<not> frame_error ?frl" by blast
    from r0 full un have c255: "frag_id_high frp ! unat n \<noteq> 255" by auto
    from opn un c255 ne arith(1) obtain cl where
      cl: "res_fragment rl = Some cl"
        "fa_frag_data_len cl = dl - (frame_offset frp + dl - frame_len frp)"
        "\<not> fa_more_frags cl"
      by auto
    from cl(2) arith(2) have len: "unat (fa_frag_data_len cl) = unat full_len - (unat dl0 + ?pre)"
      by (simp add: lenp' offp')
    note acc = frame_after_accumulates [OF n16 un c255 ne]
    have comp: "frame_complete ?frl" "frame_len ?frl = full_len"
      using acc arith(1) lenp' by simp_all
    have x: "map ?h (snd ?R)
               = Some (unat dl0, True) # map (\<lambda>nd. Some (unat (snd nd), True)) nds'
                 @ [Some (unat full_len - (unat dl0 + ?pre), False)]"
      unfolding sndR using c1 lt0 cl(1,3) len by (simp add: sl hp)
    have y: "map_option (\<lambda>fr. (frame_complete fr, frame_len fr))
               (iso15765_frame_table (fst ?R) ?s) = Some (True, full_len)"
      unfolding fstR using comp by (simp add: sl tl mp m1)
    from x y show ?thesis by (simp add: nds comp_def)
  qed
  from main submitted_sum [OF main [THEN conjunct1]] before
  show ?thesis by simp
qed

text \<open>The call to the reassembly routines and its answer.\<close>

lemma reassemble_fragment_call:
  assumes "fst (snd (snd (reassemble_fragment cfg reassemble tvb p l st info))) = Some c"
  shows "fa_tvb c = tvb \<and> fa_offset c = l_offset l \<and> fa_pinfo c = p
       \<and> fa_id c = ident_seq (fst (snd (reassemble_fragment cfg reassemble tvb p l st info)))
       \<and> fa_frag_number c
           = ident_frag_id (fst (snd (reassemble_fragment cfg reassemble tvb p l st info)))
       \<and> iso15765_reassembly_table (fst (reassemble_fragment cfg reassemble tvb p l st info))
           = fst (reassemble (iso15765_reassembly_table st) c)
       \<and> snd (snd (snd (reassemble_fragment cfg reassemble tvb p l st info)))
           = (case snd (reassemble (iso15765_reassembly_table st) c) of
                Inl e \<Rightarrow> Inl e
              | Inr None \<Rightarrow>
                  Inr (Some (tvb_new_subset_length tvb (l_offset l) (l_data_length l)),
                       l_complete l)
              | Inr (Some t) \<Rightarrow> Inr (Some t, True))"
  using assms unfolding reassemble_fragment_def
  by (auto simp add: Let_def split: option.splits prod.splits sum.splits if_splits)


lemma save_info_reassembly_table:
  "iso15765_reassembly_table (fst (save_info st p info sv)) = iso15765_reassembly_table st"
  by (simp add: save_info_def split: save_information.splits)

text \<open>The call a frame makes to the reassembly routines, and what becomes of its answer.\<close>

lemma dissect_call:
  assumes "res_fragment (snd (dissect_iso15765 cfg reassemble stack st tvb p bus_type frame_id
                                frame_length)) = Some c"
  shows "\<exists>d l. parse_frame cfg stack tvb bus_type frame_id frame_length = Inr (Some (d, l))
           \<and> l_fragmented l \<and> show_data_ok tvb l
           \<and> fa_tvb c = tvb \<and> fa_offset c = l_offset l \<and> fa_pinfo c = p
           \<and> fa_id c
               = ident_seq (res_ident (snd (dissect_iso15765 cfg reassemble stack st tvb p bus_type
                                              frame_id frame_length)))
           \<and> fa_frag_number c
               = ident_frag_id (res_ident (snd (dissect_iso15765 cfg reassemble stack st tvb p
                                                  bus_type frame_id frame_length)))
           \<and> iso15765_reassembly_table
                (fst (dissect_iso15765 cfg reassemble stack st tvb p bus_type frame_id
                        frame_length))
               = fst (reassemble (iso15765_reassembly_table st) c)
           \<and> (res_exn (snd (dissect_iso15765 cfg reassemble stack st tvb p bus_type frame_id
                               frame_length)),
                res_next (snd (dissect_iso15765 cfg reassemble stack st tvb p bus_type frame_id
                                frame_length)))
               = (case snd (reassemble (iso15765_reassembly_table st) c) of
                    Inl e \<Rightarrow> (Some e, None)
                  | Inr None \<Rightarrow>
                      (None, Some (l_complete l,
                                   tvb_new_subset_length tvb (l_offset l) (l_data_length l),
                                   d\<lparr>data_len := frame_length\<rparr>))
                  | Inr (Some t) \<Rightarrow> (None, Some (True, t, d\<lparr>data_len := frame_length\<rparr>)))"
proof (cases "parse_frame cfg stack tvb bus_type frame_id frame_length")
  case (Inl e)
  with assms show ?thesis by (simp add: dissect_iso15765_def Let_def thrown_def)
next
  case (Inr x)
  show ?thesis
  proof (cases x)
    case None
    with Inr assms show ?thesis by (simp add: dissect_iso15765_def Let_def)
  next
    case (Some dl)
    obtain d l where dl: "dl = (d, l)" by (cases dl)
    let ?st0 = "store_ident st p (get_ident st p frame_id)"
    obtain st1 info1 where sv: "save_info ?st0 p (get_ident st p frame_id) (l_save l) = (st1, info1)"
      by (cases "save_info ?st0 p (get_ident st p frame_id) (l_save l)")
    have rt1: "iso15765_reassembly_table st1 = iso15765_reassembly_table st"
      using save_info_reassembly_table [of ?st0 p "get_ident st p frame_id" "l_save l"] sv
      by simp
    obtain st2 info2 call r where
      rf: "reassemble_fragment cfg reassemble tvb p l st1 info1 = (st2, info2, call, r)"
      by (cases "reassemble_fragment cfg reassemble tvb p l st1 info1")
    have ok: "show_data_ok tvb l" and fr: "l_fragmented l" and cc: "call = Some c"
      using assms Inr Some dl sv rf
      by (cases r; auto simp add: dissect_iso15765_def Let_def thrown_def hand_over_def
            split: if_splits)+
    from reassemble_fragment_call [of cfg reassemble tvb p l st1 info1 c] rf cc
    have k: "fa_tvb c = tvb" "fa_offset c = l_offset l" "fa_pinfo c = p"
      "fa_id c = ident_seq info2" "fa_frag_number c = ident_frag_id info2"
      "iso15765_reassembly_table st2 = fst (reassemble (iso15765_reassembly_table st1) c)"
      "r = (case snd (reassemble (iso15765_reassembly_table st1) c) of
                Inl e \<Rightarrow> Inl e
              | Inr None \<Rightarrow>
                  Inr (Some (tvb_new_subset_length tvb (l_offset l) (l_data_length l)),
                       l_complete l)
              | Inr (Some t) \<Rightarrow> Inr (Some t, True))"
      by simp_all
    have res: "dissect_iso15765 cfg reassemble stack st tvb p bus_type frame_id frame_length
                 = (case r of
                      Inl e \<Rightarrow> (store_ident st2 p info2, thrown info2 call e)
                    | Inr (next_tvb, complete) \<Rightarrow>
                        (store_ident st2 p info2,
                         hand_over info2 call next_tvb complete d frame_length))"
      using Inr Some dl sv rf ok fr
      by (cases r) (auto simp add: dissect_iso15765_def Let_def)
    show ?thesis
      unfolding res
      using Inr Some dl ok fr k(1-6)
      by (simp add: k(7) rt1 thrown_def hand_over_def split: sum.splits option.splits)
  qed
qed


lemma sum_list_insort_key:
  "sum_list (map h (insort_key g x xs)) = (h x :: nat) + sum_list (map h xs)"
  by (induction xs) simp_all

lemma sum_list_sort_key: "sum_list (map h (sort_key g xs)) = (sum_list (map h xs) :: nat)"
  by (induction xs) (simp_all add: sum_list_insort_key)

lemma held_key:
  "((s, i) \<in> set (map (\<lambda>(s', i', t). (s', i')) (rt_fragments rt)))
     = (unat i \<in> set (held_ids rt s))"
  by (force simp add: held_ids_def word_unat_eq_iff)

lemma payload_length:
  "unat off + unat len \<le> length tvb \<Longrightarrow> length (take (unat len) (drop (unat off) tvb)) = unat len"
  by simp

lemma reassembly_routines_more:
  assumes "\<not> pinfo_visited (fa_pinfo c)"
    and "unat (fa_offset c) + unat (fa_frag_data_len c) \<le> length (fa_tvb c)"
    and "fa_more_frags c"
    and "unat (fa_frag_number c) \<notin> set (held_ids rt (fa_id c))"
  shows "snd (reassembly_routines rt c) = Inr None"
    and "held_ids (fst (reassembly_routines rt c)) (fa_id c)
           = held_ids rt (fa_id c) @ [unat (fa_frag_number c)]"
    and "held_bytes (fst (reassembly_routines rt c)) (fa_id c)
           = held_bytes rt (fa_id c) + unat (fa_frag_data_len c)"
  using assms held_key [of "fa_id c" "fa_frag_number c" rt]
  by (simp_all add: reassembly_routines_def Let_def held_ids_def held_bytes_def)

lemma reassembly_routines_last:
  assumes "\<not> pinfo_visited (fa_pinfo c)"
    and "unat (fa_offset c) + unat (fa_frag_data_len c) \<le> length (fa_tvb c)"
    and "\<not> fa_more_frags c"
    and "unat (fa_frag_number c) \<notin> set (held_ids rt (fa_id c))"
  shows "\<exists>whole. snd (reassembly_routines rt c) = Inr (Some whole)
           \<and> length whole = held_bytes rt (fa_id c) + unat (fa_frag_data_len c)"
proof -
  let ?payload = "take (unat (fa_frag_data_len c)) (drop (unat (fa_offset c)) (fa_tvb c))"
  let ?held = "rt_fragments rt @ [(fa_id c, fa_frag_number c, ?payload)]"
  let ?whole = "concat (map (\<lambda>(s, i, t). t)
                  (sort_key (\<lambda>(s, i, t). i) (filter (\<lambda>(s, i, t). s = fa_id c) ?held)))"
  have r: "snd (reassembly_routines rt c) = Inr (Some ?whole)"
    using assms held_key [of "fa_id c" "fa_frag_number c" rt]
    by (simp add: reassembly_routines_def Let_def)
  have "length ?whole
          = sum_list (map (\<lambda>x. length ((\<lambda>(s, i, t). t) x))
              (sort_key (\<lambda>(s, i, t). i) (filter (\<lambda>(s, i, t). s = fa_id c) ?held)))"
    by (simp add: length_concat comp_def)
  also have "\<dots> = sum_list (map (\<lambda>x. length ((\<lambda>(s, i, t). t) x))
                      (filter (\<lambda>(s, i, t). s = fa_id c) ?held))"
    by (rule sum_list_sort_key)
  also have "\<dots> = held_bytes rt (fa_id c) + unat (fa_frag_data_len c)"
    using assms(2) by (simp add: held_bytes_def case_prod_unfold)
  finally show ?thesis using r by blast
qed

lemma spec_expanded_ids_fresh:
  assumes "n < 16" and "\<forall>m \<in> set seen. m < 16"
  shows "unat n + 16 * count_list seen n \<notin> set (spec_expanded_ids [] seen)"
proof
  assume "unat n + 16 * count_list seen n \<in> set (spec_expanded_ids [] seen)"
  then obtain i where i: "i < length seen"
    and eq: "spec_expanded_ids [] seen ! i = unat n + 16 * count_list seen n"
    by (auto simp add: in_set_conv_nth spec_expanded_ids_length)
  let ?m = "seen ! i"
  from i assms(2) have m16: "?m < 16" by simp
  from spec_expanded_ids_nth [OF i, of "[]"] eq
  have e: "unat ?m + 16 * count_list (take i seen) ?m = unat n + 16 * count_list seen n"
    by simp
  have um: "unat ?m < 16" using m16 by (rule unat_nibble)
  have un: "unat n < 16" using assms(1) by (rule unat_nibble)
  from e um un have "unat ?m = unat n" by presburger
  then have mn: "?m = n" by (simp add: word_unat_eq_iff)
  with e have c: "count_list (take i seen) n = count_list seen n" by simp
  have "seen = take i seen @ ?m # drop (Suc i) seen" using i by (simp add: id_take_nth_drop)
  then have "count_list seen n = count_list (take i seen @ n # drop (Suc i) seen) n"
    using mn by simp
  then have "count_list seen n = count_list (take i seen) n + 1 + count_list (drop (Suc i) seen) n"
    by simp
  with c show False by simp
qed


text \<open>One first-pass fragment that is submitted to the modelled reassembly routines.\<close>

lemma held_step:
  fixes st :: "reassembly_table iso15765_state"
  assumes call: "res_fragment (snd (dissect_iso15765 cfg reassembly_routines stack st tvb
                    \<lparr>pinfo_num = k, pinfo_visited = False\<rparr> bus_type frame_id frame_length))
                   = Some c"
    and parse: "parse_frame cfg stack tvb bus_type frame_id frame_length = Inr (Some (d, l))"
    and pos: "0 <s l_data_length l"
    and le: "unat (fa_frag_data_len c) \<le> unat (l_data_length l)"
    and nc: "\<not> l_complete l"
    and new: "unat (fa_frag_number c) \<notin> set (held_ids (iso15765_reassembly_table st) (fa_id c))"
  shows "res_exn (snd (dissect_iso15765 cfg reassembly_routines stack st tvb
            \<lparr>pinfo_num = k, pinfo_visited = False\<rparr> bus_type frame_id frame_length)) = None"
    and "fa_more_frags c \<Longrightarrow>
           map_option (\<lambda>(complete, t, d). (complete, length t))
             (res_next (snd (dissect_iso15765 cfg reassembly_routines stack st tvb
                \<lparr>pinfo_num = k, pinfo_visited = False\<rparr> bus_type frame_id frame_length)))
             = Some (False, unat (l_data_length l))
           \<and> held_ids (iso15765_reassembly_table
                 (fst (dissect_iso15765 cfg reassembly_routines stack st tvb
                    \<lparr>pinfo_num = k, pinfo_visited = False\<rparr> bus_type frame_id frame_length)))
               (fa_id c)
               = held_ids (iso15765_reassembly_table st) (fa_id c) @ [unat (fa_frag_number c)]
           \<and> held_bytes (iso15765_reassembly_table
                 (fst (dissect_iso15765 cfg reassembly_routines stack st tvb
                    \<lparr>pinfo_num = k, pinfo_visited = False\<rparr> bus_type frame_id frame_length)))
               (fa_id c)
               = held_bytes (iso15765_reassembly_table st) (fa_id c) + unat (fa_frag_data_len c)"
    and "\<not> fa_more_frags c \<Longrightarrow>
           map_option (\<lambda>(complete, t, d). (complete, length t))
             (res_next (snd (dissect_iso15765 cfg reassembly_routines stack st tvb
                \<lparr>pinfo_num = k, pinfo_visited = False\<rparr> bus_type frame_id frame_length)))
             = Some (True, held_bytes (iso15765_reassembly_table st) (fa_id c)
                             + unat (fa_frag_data_len c))"
proof -
  let ?p = "\<lparr>pinfo_num = k, pinfo_visited = False\<rparr>"
  let ?D = "dissect_iso15765 cfg reassembly_routines stack st tvb ?p bus_type frame_id
              frame_length"
  let ?rt = "iso15765_reassembly_table st"
  from dissect_call [OF call] parse have
    ok: "show_data_ok tvb l"
    and c: "fa_tvb c = tvb" "fa_offset c = l_offset l" "fa_pinfo c = ?p"
    and rt: "iso15765_reassembly_table (fst ?D) = fst (reassembly_routines ?rt c)"
    and out: "(res_exn (snd ?D), res_next (snd ?D))
               = (case snd (reassembly_routines ?rt c) of
                    Inl e \<Rightarrow> (Some e, None)
                  | Inr None \<Rightarrow>
                      (None, Some (l_complete l,
                                   tvb_new_subset_length tvb (l_offset l) (l_data_length l),
                                   d\<lparr>data_len := frame_length\<rparr>))
                  | Inr (Some t) \<Rightarrow> (None, Some (True, t, d\<lparr>data_len := frame_length\<rparr>)))"
    by auto
  from ok pos have room: "unat (l_offset l) + unat (l_data_length l) \<le> length tvb"
    by (simp add: show_data_ok_def)
  have nv: "\<not> pinfo_visited (fa_pinfo c)" by (simp add: c)
  have bd: "unat (fa_offset c) + unat (fa_frag_data_len c) \<le> length (fa_tvb c)"
    using room le by (simp add: c)
  have raw: "length (tvb_new_subset_length tvb (l_offset l) (l_data_length l))
               = unat (l_data_length l)"
    using room by (simp add: tvb_new_subset_length_def)
  show "res_exn (snd ?D) = None"
  proof (cases "fa_more_frags c")
    case True
    from reassembly_routines_more(1) [OF nv bd True new] out show ?thesis by simp
  next
    case False
    from reassembly_routines_last [OF nv bd False new] out show ?thesis by auto
  qed
  show "map_option (\<lambda>(complete, t, d). (complete, length t)) (res_next (snd ?D))
          = Some (False, unat (l_data_length l))
        \<and> held_ids (iso15765_reassembly_table (fst ?D)) (fa_id c)
            = held_ids ?rt (fa_id c) @ [unat (fa_frag_number c)]
        \<and> held_bytes (iso15765_reassembly_table (fst ?D)) (fa_id c)
            = held_bytes ?rt (fa_id c) + unat (fa_frag_data_len c)"
    if m: "fa_more_frags c"
    using reassembly_routines_more [OF nv bd m new] out nc raw by (simp add: rt)
  show "map_option (\<lambda>(complete, t, d). (complete, length t)) (res_next (snd ?D))
          = Some (True, held_bytes ?rt (fa_id c) + unat (fa_frag_data_len c))"
    if m: "\<not> fa_more_frags c"
    using reassembly_routines_last [OF nv bd m new] out by auto
qed


text \<open>
  A run of first-pass consecutive frames that are all submitted and stay below the declared
  length, with the modelled reassembly routines: what the reassembly table holds, and what
  goes to the next dissector.
\<close>

lemma cf_run_held:
  fixes st :: "reassembly_table iso15765_state"
  assumes "list_all2 (\<lambda>f nd. consecutive_frame cfg stack f = Some nd) cfs nds"
    and "iso15765_frame_table st (msg_seqid st) = Some fr"
    and "length (frag_id_high fr) = 16"
    and "\<forall>n<16. unat (frag_id_high fr ! unat n) = count_list seen n"
    and "\<forall>n \<in> set (map fst nds). count_list (seen @ map fst nds) n \<le> 255"
    and "\<forall>m \<in> set seen. m < 16"
    and "\<forall>r \<in> set (snd (dissect_stream cfg reassembly_routines stack False k st cfs)).
           res_fragment r \<noteq> None"
    and "\<forall>i<length cfs. proto_data st (k + i) = None"
    and "unat (frame_offset fr) + sum_list (map (\<lambda>nd. unat (snd nd)) nds) < unat (frame_len fr)"
    and "\<forall>nd \<in> set nds. 0 <s snd nd"
    and "held_ids (iso15765_reassembly_table st) (msg_seqid st) = spec_expanded_ids [] seen"
  shows "held_ids (iso15765_reassembly_table
                     (fst (dissect_stream cfg reassembly_routines stack False k st cfs)))
           (msg_seqid st)
           = spec_expanded_ids [] (seen @ map fst nds)
       \<and> held_bytes (iso15765_reassembly_table
                       (fst (dissect_stream cfg reassembly_routines stack False k st cfs)))
           (msg_seqid st)
           = held_bytes (iso15765_reassembly_table st) (msg_seqid st)
             + sum_list (map (\<lambda>nd. unat (snd nd)) nds)
       \<and> map (\<lambda>r. (res_exn r,
                    map_option (\<lambda>(complete, t, d). (complete, length t)) (res_next r)))
           (snd (dissect_stream cfg reassembly_routines stack False k st cfs))
           = map (\<lambda>nd. (None, Some (False, unat (snd nd)))) nds
       \<and> map (\<lambda>r. map_option (\<lambda>c. (fa_id c, unat (fa_frag_number c))) (res_fragment r))
           (snd (dissect_stream cfg reassembly_routines stack False k st cfs))
           = map (\<lambda>i. Some (msg_seqid st, i)) (spec_expanded_ids seen (map fst nds))"
  using assms
proof (induction cfs arbitrary: nds seen st fr k)
  case Nil
  then show ?case by auto
next
  case (Cons f fs)
  from Cons.prems(1) obtain n dl nds' where
    nds: "nds = (n, dl) # nds'" and cf: "consecutive_frame cfg stack f = Some (n, dl)"
    and rest: "list_all2 (\<lambda>f nd. consecutive_frame cfg stack f = Some nd) fs nds'"
    by (auto simp add: list_all2_Cons1)
  from cf obtain d l where
    parse: "parse_frame cfg stack (lf_tvb f) (lf_bus_type f) (lf_frame_id f) (lf_frame_length f)
              = Inr (Some (d, l))"
    and ldl: "l_data_length l = dl" and lnc: "\<not> l_complete l" and n16: "n < 16"
    by (rule consecutive_frameD)
  have un: "unat n < length (frag_id_high fr)"
    using unat_nibble [OF n16] Cons.prems(3) by simp
  let ?p = "\<lparr>pinfo_num = k, pinfo_visited = False\<rparr>"
  let ?c = "frag_id_high fr ! unat n"
  let ?x = "unat n + 16 * unat ?c"
  let ?e = "frame_error fr \<or> (of_nat ?x :: guint32) + window cfg < ucast (last_frag_id fr)"
  let ?D = "dissect_iso15765 cfg reassembly_routines stack st (lf_tvb f) ?p
              (lf_bus_type f) (lf_frame_id f) (lf_frame_length f)"
  let ?rt = "iso15765_reassembly_table st"
  let ?s = "msg_seqid st"
  have cnt: "unat ?c = count_list seen n" using Cons.prems(4) n16 by simp
  have "count_list (seen @ map fst nds) n \<le> 255" using Cons.prems(5) nds by simp
  then have c: "unat ?c < 255" using cnt nds by simp
  then have cne: "?c \<noteq> 255" by auto
  have sub0: "res_fragment (snd ?D) \<noteq> None"
    using Cons.prems(7) by (simp add: dissect_stream_Cons_snd del: dissect_stream.simps(2))
  have subr: "\<forall>r \<in> set (snd (dissect_stream cfg reassembly_routines stack False (Suc k)
                                  (fst ?D) fs)).
                res_fragment r \<noteq> None"
    using Cons.prems(7) by (simp add: dissect_stream_Cons_snd del: dissect_stream.simps(2))
  have "proto_data st (k + 0) = None" using Cons.prems(8) by auto
  then have fresh0: "proto_data st (pinfo_num ?p) = None" by simp
  have below0: "unat (frame_offset fr) + unat dl < unat (frame_len fr)"
    using Cons.prems(9) nds by simp
  note arith = untrimmed_length [OF below0]
  from cf_step_window [OF cf Cons.prems(2) Cons.prems(3) c, where reassemble = reassembly_routines
      and k = k] obtain fr1 where
    t: "iso15765_frame_table (fst ?D) = (iso15765_frame_table st)(?s \<mapsto> fr1)"
    and m: "msg_seqid (fst ?D) = ?s"
    and pd: "proto_data (fst ?D) = (proto_data st)(k \<mapsto> res_ident (snd ?D))"
    and none: "(res_fragment (snd ?D) = None) = ?e"
    and off: "frame_offset fr1 = (if ?e then frame_offset fr else frame_offset fr + dl)"
    and ln: "frame_len fr1 = frame_len fr"
    and hi: "frag_id_high fr1 = (frag_id_high fr)[unat n := ?c + 1]"
    and sq: "ident_seq (res_ident (snd ?D)) = ?s"
    and fx: "unat (ident_frag_id (res_ident (snd ?D))) = ?x"
    and call: "\<not> ?e \<longrightarrow>
                (\<exists>c. res_fragment (snd ?D) = Some c
                   \<and> fa_frag_data_len c
                       = (if frame_offset fr + dl \<ge> frame_len fr
                          then dl - (frame_offset fr + dl - frame_len fr) else dl)
                   \<and> fa_more_frags c
                       = (\<not> (ident_last (get_ident st ?p (lf_frame_id f))
                             \<or> frame_offset fr + dl \<ge> frame_len fr)))"
    by (elim exE conjE) (rule that; assumption)
  from sub0 none have ne: "\<not> ?e" by simp
  from call ne arith(1) get_ident_fresh [OF fresh0, of "lf_frame_id f"] obtain c where
    c: "res_fragment (snd ?D) = Some c" "fa_frag_data_len c = dl" "fa_more_frags c"
    by auto
  from dissect_call [OF c(1)] sq fx have key: "fa_id c = ?s" "unat (fa_frag_number c) = ?x"
    by auto
  have new: "unat (fa_frag_number c) \<notin> set (held_ids ?rt (fa_id c))"
    using spec_expanded_ids_fresh [OF n16 Cons.prems(6)] Cons.prems(11) key cnt by simp
  have pos: "0 <s l_data_length l" using Cons.prems(10) nds ldl by simp
  have le: "unat (fa_frag_data_len c) \<le> unat (l_data_length l)" using c(2) ldl by simp
  note hs = held_step [OF c(1) parse pos le lnc new]
  from hs(2) [OF c(3)] key ldl have
    nx: "map_option (\<lambda>(complete, t, d). (complete, length t)) (res_next (snd ?D))
           = Some (False, unat dl)"
    and hid: "held_ids (iso15765_reassembly_table (fst ?D)) ?s = held_ids ?rt ?s @ [?x]"
    and hby: "held_bytes (iso15765_reassembly_table (fst ?D)) ?s = held_bytes ?rt ?s + unat dl"
    using c(2) by simp_all
  have ids1: "spec_expanded_ids [] (seen @ [n]) = spec_expanded_ids [] seen @ [?x]"
    by (simp add: spec_expanded_ids_append cnt)
  have b: "iso15765_frame_table (fst ?D) (msg_seqid (fst ?D)) = Some fr1" by (simp add: m t)
  have l16: "length (frag_id_high fr1) = 16" using Cons.prems(3) by (simp add: hi)
  have rel: "\<forall>m<16. unat (frag_id_high fr1 ! unat m) = count_list (seen @ [n]) m"
  proof (intro allI impI)
    fix m :: guint16
    assume m16: "m < 16"
    show "unat (frag_id_high fr1 ! unat m) = count_list (seen @ [n]) m"
    proof (cases "m = n")
      case True
      then show ?thesis
        using un cnt cne by (simp add: hi unat_byte_succ)
    next
      case False
      then have "unat m \<noteq> unat n" by (simp add: word_unat_eq_iff)
      then show ?thesis
        using Cons.prems(4) m16 False by (simp add: hi)
    qed
  qed
  have lim: "\<forall>x \<in> set (map fst nds'). count_list ((seen @ [n]) @ map fst nds') x \<le> 255"
    using Cons.prems(5) nds by simp
  have nib: "\<forall>m \<in> set (seen @ [n]). m < 16" using Cons.prems(6) n16 by simp
  have fresh: "\<forall>i<length fs. proto_data (fst ?D) (Suc k + i) = None"
  proof (intro allI impI)
    fix i assume "i < length fs"
    then have "Suc i < length (f # fs)" by simp
    with Cons.prems(8) have "proto_data st (k + Suc i) = None" by blast
    then show "proto_data (fst ?D) (Suc k + i) = None" by (simp add: pd)
  qed
  have below: "unat (frame_offset fr1) + sum_list (map (\<lambda>nd. unat (snd nd)) nds')
                 < unat (frame_len fr1)"
    using Cons.prems(9) nds ne by (simp add: off ln arith(2))
  have pos': "\<forall>nd \<in> set nds'. 0 <s snd nd" using Cons.prems(10) nds by simp
  have held: "held_ids (iso15765_reassembly_table (fst ?D)) (msg_seqid (fst ?D))
                = spec_expanded_ids [] (seen @ [n])"
    using hid Cons.prems(11) by (simp add: m ids1)
  have same: "(seen @ [n]) @ map fst nds' = seen @ map fst nds" by (simp add: nds)
  note ih = Cons.IH [OF rest b l16 rel lim nib subr fresh below pos' held, unfolded same m]
  have ex: "res_exn (snd ?D) = None" by (rule hs(1))
  have keys: "map_option (\<lambda>c. (fa_id c, unat (fa_frag_number c))) (res_fragment (snd ?D))
                = Some (?s, ?x)"
    using c(1) key by simp
  have ids: "spec_expanded_ids seen (map fst nds)
               = ?x # spec_expanded_ids (seen @ [n]) (map fst nds')"
    by (simp add: nds cnt)
  show ?case
    unfolding dissect_stream_Cons_fst dissect_stream_Cons_snd ids
    using ih ex nx keys hby by (simp add: nds)
qed


lemma held_bytes_empty: "held_ids rt s = [] \<Longrightarrow> held_bytes rt s = 0"
  by (simp add: held_ids_def held_bytes_def)

lemma list_all2_nibbles:
  "list_all2 (\<lambda>f nd. consecutive_frame cfg stack f = Some nd) cfs nds \<Longrightarrow>
     list_all2 (\<lambda>f n. \<exists>dl. consecutive_frame cfg stack f = Some (n, dl)) cfs (map fst nds)"
  by (induction rule: list_all2_induct) auto

lemma nibbles_less:
  "list_all2 (\<lambda>f nd. consecutive_frame cfg stack f = Some nd) cfs nds \<Longrightarrow>
     \<forall>m \<in> set (map fst nds). m < 16"
proof (induction rule: list_all2_induct)
  case Nil
  then show ?case by simp
next
  case (Cons f fs nd nds)
  obtain n dl where "nd = (n, dl)" by (cases nd)
  with Cons.hyps(1) have "n < 16" by (auto dest: consecutive_frameD)
  with Cons.IH \<open>nd = (n, dl)\<close> show ?case by simp
qed

lemma no_lag_no_drop:
  "\<not> list_ex (spec_lags w ids) [0..<m] \<Longrightarrow> j < m \<Longrightarrow> \<not> spec_dropped w ids j"
  by (auto simp add: spec_dropped_def list_ex_iff)

text \<open>
  Completion with the modelled reassembly routines: the keys submitted, and what goes to
  the next dissector.
\<close>

lemma completion_handed_over:
  fixes st :: "reassembly_table iso15765_state"
  assumes ff: "first_frame cfg stack f = Some (full_len, dl0)"
    and cfs: "list_all2 (\<lambda>f nd. consecutive_frame cfg stack f = Some nd) cfs nds"
    and fresh: "\<forall>i \<le> length cfs. proto_data st (k + i) = None"
    and sub: "\<forall>r \<in> set (snd (dissect_stream cfg reassembly_routines stack False k st (f # cfs))).
                res_fragment r \<noteq> None"
    and before: "sum_list (butlast (unat dl0 # map (\<lambda>nd. unat (snd nd)) nds)) < unat full_len"
    and reach: "unat full_len \<le> sum_list (unat dl0 # map (\<lambda>nd. unat (snd nd)) nds)"
    and nowrap: "sum_list (unat dl0 # map (\<lambda>nd. unat (snd nd)) nds) < 2 ^ 32"
    and lim: "\<forall>n \<in> set (map fst nds). count_list (0 # map fst nds) n \<le> 255"
    and pos0: "0 <s dl0"
    and pos: "\<forall>nd \<in> set nds. 0 <s snd nd"
    and unused: "held_ids (iso15765_reassembly_table st) (msg_seqid st + 1) = []"
  shows "map (\<lambda>r. map_option (\<lambda>c. (fa_id c, unat (fa_frag_number c))) (res_fragment r))
           (snd (dissect_stream cfg reassembly_routines stack False k st (f # cfs)))
           = map (\<lambda>i. Some (msg_seqid st + 1, i)) (spec_expanded_ids [] (0 # map fst nds))
       \<and> map (\<lambda>r. (res_exn r,
                    map_option (\<lambda>(complete, t, d). (complete, length t)) (res_next r)))
           (snd (dissect_stream cfg reassembly_routines stack False k st (f # cfs)))
           = map (\<lambda>d. (None, Some (False, d)))
               (butlast (unat dl0 # map (\<lambda>nd. unat (snd nd)) nds))
             @ [(None, Some (True, unat full_len))]"
proof -
  let ?R = "dissect_stream cfg reassembly_routines stack False k st (f # cfs)"
  let ?p = "\<lparr>pinfo_num = k, pinfo_visited = False\<rparr>"
  let ?s = "msg_seqid st + 1"
  let ?rt = "iso15765_reassembly_table st"
  let ?fr0 = "(new_frame ?s full_len)
                \<lparr>frag_id_high := (replicate 16 0)[0 := 1], frame_offset := dl0,
                 frame_complete := (dl0 \<ge> full_len)\<rparr>"
  let ?D = "dissect_iso15765 cfg reassembly_routines stack st (lf_tvb f) ?p (lf_bus_type f)
              (lf_frame_id f) (lf_frame_length f)"
  let ?key = "\<lambda>r. map_option (\<lambda>c. (fa_id c, unat (fa_frag_number c))) (res_fragment r)"
  let ?out = "\<lambda>r. (res_exn r, map_option (\<lambda>(complete, t, d). (complete, length t)) (res_next r))"
  have "proto_data st (k + 0) = None" using fresh by blast
  then have fresh0: "proto_data st (pinfo_num ?p) = None" by simp
  from ff obtain d0 l0 where
    parse0: "parse_frame cfg stack (lf_tvb f) (lf_bus_type f) (lf_frame_id f) (lf_frame_length f)
               = Inr (Some (d0, l0))"
    and ldl0: "l_data_length l0 = dl0" and lnc0: "\<not> l_complete l0"
    by (rule first_frameD)
  from ff_step [OF ff, of reassembly_routines st k]
       get_ident_fresh [OF fresh0, of "lf_frame_id f"]
  obtain c1 where
    m1: "msg_seqid (fst ?D) = ?s"
    and t1: "iso15765_frame_table (fst ?D) = (iso15765_frame_table st)(?s \<mapsto> ?fr0)"
    and pd1: "proto_data (fst ?D) = (proto_data st)(k \<mapsto> res_ident (snd ?D))"
    and c1: "res_fragment (snd ?D) = Some c1" "fa_id c1 = ?s" "fa_frag_number c1 = 0"
      "fa_frag_data_len c1 = (if dl0 \<ge> full_len then full_len else dl0)"
      "fa_more_frags c1 = (\<not> dl0 \<ge> full_len)"
    by auto
  have new1: "unat (fa_frag_number c1) \<notin> set (held_ids ?rt (fa_id c1))"
    using unused c1 by simp
  have pos1: "0 <s l_data_length l0" using pos0 ldl0 by simp
  have le1: "unat (fa_frag_data_len c1) \<le> unat (l_data_length l0)"
    using c1(4) ldl0 by (simp add: word_le_nat_alt)
  note hs1 = held_step [OF c1(1) parse0 pos1 le1 lnc0 new1]
  have key1: "?key (snd ?D) = Some (?s, 0)" using c1 by simp
  show ?thesis
  proof (cases cfs rule: rev_cases)
    case Nil
    with cfs have nds: "nds = []" by simp
    from reach nds have ge: "dl0 \<ge> full_len" by (simp add: word_le_nat_alt)
    then have last1: "\<not> fa_more_frags c1" and len1: "fa_frag_data_len c1 = full_len"
      using c1 by simp_all
    from hs1(3) [OF last1] c1(2) unused len1
    have "map_option (\<lambda>(complete, t, d). (complete, length t)) (res_next (snd ?D))
            = Some (True, unat full_len)"
      by (simp add: held_bytes_empty)
    with hs1(1) key1 show ?thesis
      by (simp add: Nil nds dissect_stream_Cons_snd del: dissect_stream.simps(2))
  next
    case (snoc cfs' fl)
    from cfs snoc obtain nds' nd where
      nds: "nds = nds' @ [nd]"
      and cfs': "list_all2 (\<lambda>f nd. consecutive_frame cfg stack f = Some nd) cfs' nds'"
      and cfl: "consecutive_frame cfg stack fl = Some nd"
      by (auto simp add: list_all2_append1 list_all2_Cons1)
    obtain n dl where nd: "nd = (n, dl)" by (cases nd)
    let ?ns = "map fst nds'"
    let ?pre = "sum_list (map (\<lambda>nd. unat (snd nd)) nds')"
    from before nds have bef: "unat dl0 + ?pre < unat full_len" by simp
    from reach nds nd have rea: "unat full_len \<le> unat dl0 + ?pre + unat dl" by simp
    from nowrap nds nd have now: "unat dl0 + ?pre + unat dl < 2 ^ 32" by simp
    from bef have lt0: "\<not> dl0 \<ge> full_len" by (simp add: word_le_nat_alt)
    then have more1: "fa_more_frags c1" and len1: "fa_frag_data_len c1 = dl0"
      using c1 by simp_all
    from hs1(2) [OF more1] c1(2,3) ldl0 unused len1 have
      nx1: "map_option (\<lambda>(complete, t, d). (complete, length t)) (res_next (snd ?D))
              = Some (False, unat dl0)"
      and hid1: "held_ids (iso15765_reassembly_table (fst ?D)) ?s = [0]"
      and hby1: "held_bytes (iso15765_reassembly_table (fst ?D)) ?s = unat dl0"
      by (simp_all add: held_bytes_empty)
    let ?run = "dissect_stream cfg reassembly_routines stack False (Suc k) (fst ?D) cfs'"
    let ?kl = "Suc (k + length cfs')"
    let ?pl = "\<lparr>pinfo_num = ?kl, pinfo_visited = False\<rparr>"
    let ?Dl = "dissect_iso15765 cfg reassembly_routines stack (fst ?run) (lf_tvb fl) ?pl
                 (lf_bus_type fl) (lf_frame_id fl) (lf_frame_length fl)"
    have sndR: "snd ?R = snd ?D # snd ?run @ [snd ?Dl]"
      by (simp add: snoc dissect_stream_Cons_fst dissect_stream_Cons_snd
          dissect_stream_append_snd del: dissect_stream.simps(2))
    have b1: "iso15765_frame_table (fst ?D) (msg_seqid (fst ?D)) = Some ?fr0"
      by (simp add: m1 t1)
    have l1: "length (frag_id_high ?fr0) = 16" by simp
    have rel1: "\<forall>n<16. unat (frag_id_high ?fr0 ! unat n) = count_list [0] (n :: guint16)"
      using first_frame_counters by simp
    have lim1: "\<forall>n \<in> set ?ns. count_list ([0] @ ?ns) n \<le> 255"
    proof
      fix m assume "m \<in> set ?ns"
      then have "m \<in> set (map fst nds)" by (simp add: nds)
      with lim have "count_list (0 # map fst nds) m \<le> 255" by blast
      then show "count_list ([0] @ ?ns) m \<le> 255" by (simp add: nds split: if_splits)
    qed
    have nib1: "\<forall>m \<in> set [0 :: guint16]. m < 16" by simp
    have fresh1: "\<forall>i<length cfs'. proto_data (fst ?D) (Suc k + i) = None"
    proof (intro allI impI)
      fix i assume "i < length cfs'"
      then have "Suc i \<le> length cfs" using snoc by simp
      with fresh have "proto_data st (k + Suc i) = None" by blast
      then show "proto_data (fst ?D) (Suc k + i) = None" by (simp add: pd1)
    qed
    have sub1: "\<forall>r \<in> set (snd ?run). res_fragment r \<noteq> None"
      using sub [unfolded sndR] by simp
    have below1: "unat (frame_offset ?fr0) + ?pre < unat (frame_len ?fr0)"
      using bef by (simp add: new_frame_def)
    have held1: "held_ids (iso15765_reassembly_table (fst ?D)) (msg_seqid (fst ?D))
                   = spec_expanded_ids [] [0]"
      using hid1 by (simp add: m1)
    have pos': "\<forall>nd \<in> set nds'. 0 <s snd nd" using pos nds by simp
    from cf_run_held [OF cfs' b1 l1 rel1 lim1 nib1 sub1 fresh1 below1 pos' held1, unfolded m1]
    have hidp: "held_ids (iso15765_reassembly_table (fst ?run)) ?s
                  = spec_expanded_ids [] ([0] @ ?ns)"
      and hbyp: "held_bytes (iso15765_reassembly_table (fst ?run)) ?s
                  = held_bytes (iso15765_reassembly_table (fst ?D)) ?s + ?pre"
      and outp: "map ?out (snd ?run) = map (\<lambda>nd. (None, Some (False, unat (snd nd)))) nds'"
      and keyp: "map ?key (snd ?run) = map (\<lambda>i. Some (?s, i)) (spec_expanded_ids [0] ?ns)"
      by simp_all
    from cf_run_counters [OF list_all2_nibbles [OF cfs'] b1 l1 rel1 lim1,
           of reassembly_routines "Suc k"]
    obtain frp where
      bp: "iso15765_frame_table (fst ?run) (msg_seqid (fst ?D)) = Some frp"
      and mp: "msg_seqid (fst ?run) = msg_seqid (fst ?D)"
      and lp: "length (frag_id_high frp) = 16"
      and relp: "\<forall>n<16. unat (frag_id_high frp ! unat n) = count_list ([0] @ ?ns) n"
      by blast
    from cf_run_submitted [OF cfs' b1 l1 fresh1 sub1 below1] bp
    have lenp: "frame_len frp = frame_len ?fr0"
      and offp: "unat (frame_offset frp) = unat (frame_offset ?fr0) + ?pre"
      by auto
    from lenp have lenp': "frame_len frp = full_len" by (simp add: new_frame_def)
    from offp have offp': "unat (frame_offset frp) = unat dl0 + ?pre" by simp
    from bp mp have bp': "iso15765_frame_table (fst ?run) (msg_seqid (fst ?run)) = Some frp"
      by simp
    have freshl: "proto_data (fst ?run) (pinfo_num ?pl) = None"
    proof -
      have "Suc (length cfs') \<le> length cfs" using snoc by simp
      with fresh have "proto_data st (k + Suc (length cfs')) = None" by blast
      then show ?thesis by (simp add: dissect_stream_proto_data pd1)
    qed
    from cfl nd have cfl': "consecutive_frame cfg stack fl = Some (n, dl)" by simp
    from cfl' obtain dl' ll where
      parsel: "parse_frame cfg stack (lf_tvb fl) (lf_bus_type fl) (lf_frame_id fl)
                 (lf_frame_length fl) = Inr (Some (dl', ll))"
      and ldl: "l_data_length ll = dl" and lnc: "\<not> l_complete ll" and n16: "n < 16"
      by (rule consecutive_frameD)
    let ?c = "frag_id_high frp ! unat n"
    let ?x = "unat n + 16 * unat ?c"
    let ?e = "frame_error frp \<or> (of_nat ?x :: guint32) + window cfg < ucast (last_frag_id frp)"
    have cnt: "unat ?c = count_list ([0] @ ?ns) n" using relp n16 by simp
    have "count_list (0 # map fst nds) n \<le> 255" using lim nds nd by simp
    then have cl: "unat ?c < 255" using cnt nds nd by (simp split: if_splits)
    have a1: "unat (frame_offset frp) < unat (frame_len frp)" using bef offp' lenp' by simp
    have a2: "unat (frame_len frp) \<le> unat (frame_offset frp) + unat dl"
      using rea offp' lenp' by simp
    have a3: "unat (frame_offset frp) + unat dl < 2 ^ 32" using now offp' by simp
    note arith = trimmed_length [OF a1 a2 a3]
    from cf_step_window [OF cfl' bp' lp cl, where reassemble = reassembly_routines and k = ?kl]
    have nonel: "(res_fragment (snd ?Dl) = None) = ?e"
      and sql: "ident_seq (res_ident (snd ?Dl)) = msg_seqid (fst ?run)"
      and fxl: "unat (ident_frag_id (res_ident (snd ?Dl))) = ?x"
      and calll: "\<not> ?e \<longrightarrow>
                (\<exists>c. res_fragment (snd ?Dl) = Some c
                   \<and> fa_frag_data_len c
                       = (if frame_offset frp + dl \<ge> frame_len frp
                          then dl - (frame_offset frp + dl - frame_len frp) else dl)
                   \<and> fa_more_frags c
                       = (\<not> (ident_last (get_ident (fst ?run) ?pl (lf_frame_id fl))
                             \<or> frame_offset frp + dl \<ge> frame_len frp)))"
      by auto
    from sub [unfolded sndR] have "res_fragment (snd ?Dl) \<noteq> None" by simp
    with nonel have ne: "\<not> ?e" by simp
    from calll ne arith(1) obtain cl where
      cl: "res_fragment (snd ?Dl) = Some cl"
        "fa_frag_data_len cl = dl - (frame_offset frp + dl - frame_len frp)"
        "\<not> fa_more_frags cl"
      by auto
    from dissect_call [OF cl(1)] sql fxl mp m1
    have keyl: "fa_id cl = ?s" "unat (fa_frag_number cl) = ?x" by auto
    from cl(2) arith(2) have lenl: "unat (fa_frag_data_len cl) = unat full_len - (unat dl0 + ?pre)"
      by (simp add: lenp' offp')
    have nibp: "\<forall>m \<in> set ([0] @ ?ns). m < 16"
      using nibbles_less [OF cfs'] by simp
    have newl: "unat (fa_frag_number cl) \<notin> set (held_ids (iso15765_reassembly_table (fst ?run))
                                                    (fa_id cl))"
      using spec_expanded_ids_fresh [OF n16 nibp] hidp keyl cnt by simp
    have posl: "0 <s l_data_length ll" using pos nds nd ldl by simp
    have lel: "unat (fa_frag_data_len cl) \<le> unat (l_data_length ll)"
      using lenl rea ldl by simp
    note hsl = held_step [OF cl(1) parsel posl lel lnc newl]
    from hsl(3) [OF cl(3)] keyl(1) hbyp hby1 lenl bef
    have nxl: "map_option (\<lambda>(complete, t, d). (complete, length t)) (res_next (snd ?Dl))
                 = Some (True, unat full_len)"
      by simp
    have outl: "?out (snd ?Dl) = (None, Some (True, unat full_len))"
      using hsl(1) nxl by simp
    have out1: "?out (snd ?D) = (None, Some (False, unat dl0))"
      using hs1(1) nx1 by simp
    have keyl': "?key (snd ?Dl) = Some (?s, ?x)" using cl(1) keyl by simp
    have ids: "spec_expanded_ids [] (0 # map fst nds)
                 = 0 # spec_expanded_ids [0] ?ns @ [?x]"
      using spec_expanded_ids_append [of "[0]" ?ns "[n]"] cnt by (simp add: nds nd)
    have x: "map ?key (snd ?R) = map (\<lambda>i. Some (?s, i)) (spec_expanded_ids [] (0 # map fst nds))"
      unfolding sndR ids using key1 keyp keyl' by simp
    have y: "map ?out (snd ?R)
               = map (\<lambda>d. (None, Some (False, d)))
                   (butlast (unat dl0 # map (\<lambda>nd. unat (snd nd)) nds))
                 @ [(None, Some (True, unat full_len))]"
      unfolding sndR using out1 outp outl by (simp add: nds comp_def)
    from x y show ?thesis by simp
  qed
qed

text \<open>Replayed frames of a segmented message.\<close>

lemma parse_frame_fragmented:
  assumes "parse_frame cfg stack tvb bus_type frame_id frame_length = Inr (Some (d, l))"
    and "l_fragmented l"
  shows "l_next_tvb l = None" and "\<not> l_complete l"
proof -
  from assms(1) obtain ae pci where
    "dissect_pci cfg tvb bus_type frame_length ae pci = Inr (Some l)"
    by (auto simp add: parse_frame_def split: sum.splits prod.splits option.splits)
  from dissect_pci_fragmented(2) [OF this assms(2)]
  show "l_next_tvb l = None" and "\<not> l_complete l" by simp_all
qed

text \<open>What a replayed frame of a segmented message submits and hands on.\<close>

lemma reassemble_fragment_visited:
  assumes "pinfo_visited p"
  shows "reassemble_fragment cfg reassemble tvb p l st info
           = (case iso15765_frame_table st (ident_seq info) of
                None \<Rightarrow> (st, info, None, Inr (l_next_tvb l, l_complete l))
              | Some frame \<Rightarrow>
                  if frame_error frame then
                    (st, info, None,
                     Inr (Some (tvb_new_subset_length tvb (l_offset l) (l_data_length l)),
                          l_complete l))
                  else
                    let call = \<lparr>fa_tvb = tvb, fa_offset = l_offset l, fa_pinfo = p,
                                fa_id = ident_seq info, fa_frag_number = ident_frag_id info,
                                fa_frag_data_len = l_data_length l,
                                fa_more_frags = (\<not> ident_last info)\<rparr>;
                        (rt, r) = reassemble (iso15765_reassembly_table st) call;
                        st2 = st\<lparr>iso15765_reassembly_table := rt\<rparr>
                    in case r of
                         Inl e \<Rightarrow> (st2, info, Some call, Inl e)
                       | Inr (Some new_tvb) \<Rightarrow> (st2, info, Some call, Inr (Some new_tvb, True))
                       | Inr None \<Rightarrow>
                           (st2, info, Some call,
                            Inr (Some (tvb_new_subset_length tvb (l_offset l) (l_data_length l)),
                                 l_complete l)))"
proof -
  have triv: "iso15765_frame_table st s = Some fr \<Longrightarrow> store_frame st s fr = st" for s fr
    by (simp add: store_frame_def map_upd_triv)
  show ?thesis
    using assms unfolding reassemble_fragment_def
    by (auto simp add: Let_def triv split: option.splits prod.splits sum.splits)
qed

lemma replay_step_fragment:
  assumes c: "proto_data st (pinfo_num p) = Some info" and v: "pinfo_visited p"
    and parse: "parse_frame cfg stack tvb bus_type frame_id frame_length = Inr (Some (d, l))"
    and fr: "l_fragmented l" and ok: "show_data_ok tvb l"
  shows "case iso15765_frame_table st (ident_seq info) of
           None \<Rightarrow>
             snd (dissect_iso15765 cfg reassemble stack st tvb p bus_type frame_id frame_length)
               = \<lparr>res_ident = info, res_fragment = None, res_next = None, res_exn = None\<rparr>
         | Some frame \<Rightarrow>
             if frame_error frame then
               snd (dissect_iso15765 cfg reassemble stack st tvb p bus_type frame_id frame_length)
                 = \<lparr>res_ident = info, res_fragment = None,
                    res_next = Some (False,
                                     tvb_new_subset_length tvb (l_offset l) (l_data_length l),
                                     d\<lparr>data_len := frame_length\<rparr>),
                    res_exn = None\<rparr>
             else
               res_fragment (snd (dissect_iso15765 cfg reassemble stack st tvb p bus_type
                                    frame_id frame_length))
                 = Some \<lparr>fa_tvb = tvb, fa_offset = l_offset l, fa_pinfo = p,
                         fa_id = ident_seq info, fa_frag_number = ident_frag_id info,
                         fa_frag_data_len = l_data_length l,
                         fa_more_frags = (\<not> ident_last info)\<rparr>"
proof -
  note pf = parse_frame_fragmented [OF parse fr]
  have D: "dissect_iso15765 cfg reassemble stack st tvb p bus_type frame_id frame_length
             = (case reassemble_fragment cfg reassemble tvb p l st info of
                  (st2, info2, call, Inl e) \<Rightarrow>
                    (store_ident st2 p info2, thrown info2 call e)
                | (st2, info2, call, Inr (next_tvb, complete)) \<Rightarrow>
                    (store_ident st2 p info2,
                     hand_over info2 call next_tvb complete d frame_length))"
    using parse fr ok
    by (simp add: dissect_iso15765_def Let_def get_ident_cached [OF c] store_ident_cached [OF c]
        save_info_visited_id [OF v])
  show ?thesis
    unfolding D reassemble_fragment_visited [OF v]
    using pf
    by (auto simp add: Let_def hand_over_def thrown_def
        split: option.splits prod.splits sum.splits)
qed


lemma replay_stream_fragments:
  assumes "\<forall>i<length fs. proto_data st (k + i) = Some (infos ! i)"
    and "length infos = length fs"
    and "j < length fs"
    and "parse_frame cfg stack (lf_tvb (fs ! j)) (lf_bus_type (fs ! j)) (lf_frame_id (fs ! j))
           (lf_frame_length (fs ! j)) = Inr (Some (d, l))"
    and "l_fragmented l" and "show_data_ok (lf_tvb (fs ! j)) l"
  shows "case iso15765_frame_table st (ident_seq (infos ! j)) of
           None \<Rightarrow>
             snd (dissect_stream cfg reassemble stack True k st fs) ! j
               = \<lparr>res_ident = infos ! j, res_fragment = None, res_next = None, res_exn = None\<rparr>
         | Some frame \<Rightarrow>
             if frame_error frame then
               snd (dissect_stream cfg reassemble stack True k st fs) ! j
                 = \<lparr>res_ident = infos ! j, res_fragment = None,
                    res_next = Some (False,
                                     tvb_new_subset_length (lf_tvb (fs ! j)) (l_offset l)
                                       (l_data_length l),
                                     d\<lparr>data_len := lf_frame_length (fs ! j)\<rparr>),
                    res_exn = None\<rparr>
             else
               res_fragment (snd (dissect_stream cfg reassemble stack True k st fs) ! j)
                 = Some \<lparr>fa_tvb = lf_tvb (fs ! j), fa_offset = l_offset l,
                         fa_pinfo = \<lparr>pinfo_num = k + j, pinfo_visited = True\<rparr>,
                         fa_id = ident_seq (infos ! j), fa_frag_number = ident_frag_id (infos ! j),
                         fa_frag_data_len = l_data_length l,
                         fa_more_frags = (\<not> ident_last (infos ! j))\<rparr>"
  using assms
proof (induction fs arbitrary: k st infos j)
  case Nil
  then show ?case by simp
next
  case (Cons f fs)
  from Cons.prems(2) obtain info infos' where infos: "infos = info # infos'"
    and len: "length infos' = length fs"
    by (cases infos) auto
  let ?p = "\<lparr>pinfo_num = k, pinfo_visited = True\<rparr>"
  let ?D = "dissect_iso15765 cfg reassemble stack st (lf_tvb f) ?p (lf_bus_type f)
              (lf_frame_id f) (lf_frame_length f)"
  have "0 < length (f # fs)" by simp
  with Cons.prems(1) have "proto_data st (k + 0) = Some (infos ! 0)" by blast
  then have c: "proto_data st (pinfo_num ?p) = Some (infos ! 0)" by simp
  have v: "pinfo_visited ?p" by simp
  show ?case
  proof (cases j)
    case 0
    from replay_step_fragment [OF c v, of cfg stack "lf_tvb f" "lf_bus_type f" "lf_frame_id f"
        "lf_frame_length f" d l reassemble] Cons.prems(4-6) 0
    show ?thesis
      by (simp add: dissect_stream_Cons_snd del: dissect_stream.simps(2)
          cong: option.case_cong if_cong)
  next
    case (Suc j')
    note step = replay_step [OF c v, of cfg reassemble stack "lf_tvb f" "lf_bus_type f"
        "lf_frame_id f" "lf_frame_length f"]
    have rest: "\<forall>i<length fs. proto_data (fst ?D) (Suc k + i) = Some (infos' ! i)"
    proof (intro allI impI)
      fix i assume "i < length fs"
      then have "Suc i < length (f # fs)" by simp
      with Cons.prems(1) have "proto_data st (k + Suc i) = Some (infos ! Suc i)" by blast
      then show "proto_data (fst ?D) (Suc k + i) = Some (infos' ! i)"
        by (simp add: step(3) infos)
    qed
    have ij: "infos ! j = infos' ! j'" by (simp add: infos Suc)
    from Cons.prems(3) Suc have j': "j' < length fs" by simp
    from Cons.IH [OF rest len j'] Cons.prems(4-6) Suc
    show ?thesis
      by (simp add: dissect_stream_Cons_fst dissect_stream_Cons_snd step(2) infos
          del: dissect_stream.simps(2) cong: option.case_cong if_cong)
  qed
qed

subsection \<open>Address resolution\<close>

text \<open>
  C5. A frame for which no configuration applies resolves with validity count 0, and both
  address fields are meant to be the sentinel \<open>0xffffffff\<close> (the comment above
  \<^verbatim>\<open>find_config_can_addr_mapping\<close> says so). The PDU Transport path does that. The
  CAN path with no mapping table does not: it returns count 0 and leaves both fields as
  they were on entry, and on entry they are uninitialised. So a CAN frame with identifier
  \<open>0x123\<close> resolves to whatever the stack held, for every such content.
\<close>

theorem C5_can_addresses_left_uninitialised:
  "resolve_addresses default_prefs tvb ISO15765_TYPE_CAN 0x123 stack
     = Inr (0, stack\<lparr>data_bus_type := ISO15765_TYPE_CAN, data_id := 0x123,
                      number_of_addresses_valid := 0\<rparr>)
   \<and> resolve_addresses default_prefs tvb ISO15765_TYPE_CAN 0x123 zero_stack
     = Inr (0, \<lparr>data_bus_type = ISO15765_TYPE_CAN, data_id = 0x123, data_len = 0,
               number_of_addresses_valid = 0, source_address = 0, target_address = 0\<rparr>)
   \<and> resolve_addresses default_prefs tvb ISO15765_TYPE_PDU_TRANSPORT 0x123 stack
     = Inr (0, stack\<lparr>data_bus_type := ISO15765_TYPE_PDU_TRANSPORT, data_id := 0x123,
                      number_of_addresses_valid := 0, source_address := 0xffffffff,
                      target_address := 0xffffffff\<rparr>)"
  by (simp add: resolve_addresses_def find_config_can_addr_mapping_def default_prefs_def
      handle_pdu_transport_addresses_def zero_stack_def)

text \<open>
  C6, as stated, fails: a matching rule that defines only an ECU address mask resolves
  both fields, the target as well as the source, to the masked value. Rule
  (standard, id \<open>0x700\<close>, mask \<open>0xFF0\<close>, ECU mask \<open>0x00F\<close>) on identifier \<open>0x705\<close>, with
  both fields holding the sentinel on entry: the target address comes back as 5.
\<close>

theorem C6_ecu_mask_sets_target_counterexample:
  "resolve_addresses
     (default_prefs\<lparr>config_can_addr_mappings :=
        Some [\<lparr>extended_address = False, can_id = 0x700, can_id_mask = 0xFF0,
               source_addr_mask = 0, target_addr_mask = 0, ecu_addr_mask = 0x00F\<rparr>]\<rparr>)
     [0x02, 0x10, 0x01] ISO15765_TYPE_CAN 0x705
     (zero_stack\<lparr>source_address := 0xffffffff, target_address := 0xffffffff\<rparr>)
   = Inr (0, \<lparr>data_bus_type = ISO15765_TYPE_CAN, data_id = 0x705, data_len = 0,
             number_of_addresses_valid = 1, source_address = 5, target_address = 5\<rparr>)"
  by (simp add: resolve_addresses_def find_config_can_addr_mapping_def NORMAL_ADDRESSING_def
      can_ext_id_def can_id_of_def CAN_EFF_FLAG_def CAN_EFF_MASK_def CAN_SFF_MASK_def
      masked_guint32_value_def ws_ctz_0F default_prefs_def zero_stack_def)

text \<open>
  C6, amended. A CAN or CAN-FD frame under normal addressing, and a mapping table in which
  \<open>r\<close> is the first row that matches the frame (same identifier width, and the
  identifier agrees with the row's under the row's identifier mask; no row before \<open>r\<close>
  matches, rows after it may). If \<open>r\<close> defines an ECU mask, the validity count is 1 and
  source and target both are the identifier under that mask, shifted down to the mask's
  lowest set bit \<open>k\<close>. If it defines no ECU mask but both a source and a target mask, the
  count is 2 and each field is the identifier under its own mask, shifted down to that
  mask's lowest set bit. Otherwise the count is 0 and the fields are left as they were. So
  the count is 2 only for a rule with both masks.
\<close>

theorem C6_matching_rule_resolution:
  assumes "addressing cfg = NORMAL_ADDRESSING"
    and "bus_type = ISO15765_TYPE_CAN \<or> bus_type = ISO15765_TYPE_CAN_FD"
    and "config_can_addr_mappings cfg = Some (pre @ r # post)"
    and "\<forall>m \<in> set pre. extended_address m \<noteq> can_ext_id frame_id
              \<or> can_id m AND can_id_mask m \<noteq> can_id_of frame_id AND can_id_mask m"
    and "extended_address r = can_ext_id frame_id"
    and "can_id r AND can_id_mask r = can_id_of frame_id AND can_id_mask r"
  shows "(bit (ecu_addr_mask r) k \<and> take_bit k (ecu_addr_mask r) = 0 \<longrightarrow>
            resolve_addresses cfg tvb bus_type frame_id stack =
              Inr (0, stack\<lparr>data_bus_type := bus_type, data_id := frame_id,
                     number_of_addresses_valid := 1,
                     source_address := drop_bit k (can_id_of frame_id AND ecu_addr_mask r),
                     target_address := drop_bit k (can_id_of frame_id AND ecu_addr_mask r)\<rparr>))
       \<and> (ecu_addr_mask r = 0
            \<and> bit (source_addr_mask r) ks \<and> take_bit ks (source_addr_mask r) = 0
            \<and> bit (target_addr_mask r) kt \<and> take_bit kt (target_addr_mask r) = 0 \<longrightarrow>
            resolve_addresses cfg tvb bus_type frame_id stack =
              Inr (0, stack\<lparr>data_bus_type := bus_type, data_id := frame_id,
                     number_of_addresses_valid := 2,
                     source_address := drop_bit ks (can_id_of frame_id AND source_addr_mask r),
                     target_address := drop_bit kt (can_id_of frame_id AND target_addr_mask r)\<rparr>))
       \<and> (ecu_addr_mask r = 0 \<and> (source_addr_mask r = 0 \<or> target_addr_mask r = 0) \<longrightarrow>
            resolve_addresses cfg tvb bus_type frame_id stack =
              Inr (0, stack\<lparr>data_bus_type := bus_type, data_id := frame_id,
                     number_of_addresses_valid := 0\<rparr>))"
proof -
  have row: "find_mapping_row (can_ext_id frame_id) (can_id_of frame_id) (pre @ r # post) = Some r"
    using assms(4-6) by (rule find_mapping_row_first)
  have ne: "bit m j \<Longrightarrow> m \<noteq> 0" for m :: guint32 and j by auto
  show ?thesis
    using assms(1-3) row
    by (auto simp add: resolve_addresses_def find_config_can_addr_mapping_def Let_def
        masked_guint32_value_lowest_bit dest: ne)
qed


theorem C6_matching_rule_resolution_witness:
  "resolve_addresses
     (default_prefs\<lparr>config_can_addr_mappings :=
        Some [\<lparr>extended_address = True, can_id = 0x700, can_id_mask = 0xF00,
               source_addr_mask = 0x00F, target_addr_mask = 0x0F0, ecu_addr_mask = 0\<rparr>,
              \<lparr>extended_address = False, can_id = 0x700, can_id_mask = 0xF00,
               source_addr_mask = 0, target_addr_mask = 0, ecu_addr_mask = 0x0F0\<rparr>,
              \<lparr>extended_address = False, can_id = 0x7A0, can_id_mask = 0xFF0,
               source_addr_mask = 0x00F, target_addr_mask = 0x0F0, ecu_addr_mask = 0\<rparr>]\<rparr>)
     [0x02, 0x10, 0x01] ISO15765_TYPE_CAN 0x7A5 zero_stack
   = Inr (0, \<lparr>data_bus_type = ISO15765_TYPE_CAN, data_id = 0x7A5, data_len = 0,
             number_of_addresses_valid = 1, source_address = 0xA, target_address = 0xA\<rparr>)
   \<and> resolve_addresses
     (default_prefs\<lparr>config_can_addr_mappings :=
        Some [\<lparr>extended_address = True, can_id = 0x700, can_id_mask = 0xF00,
               source_addr_mask = 0x00F, target_addr_mask = 0x0F0, ecu_addr_mask = 0\<rparr>,
              \<lparr>extended_address = False, can_id = 0x7A0, can_id_mask = 0xFF0,
               source_addr_mask = 0x00F, target_addr_mask = 0x0F0, ecu_addr_mask = 0\<rparr>,
              \<lparr>extended_address = False, can_id = 0x700, can_id_mask = 0xF00,
               source_addr_mask = 0, target_addr_mask = 0, ecu_addr_mask = 0x0F0\<rparr>]\<rparr>)
     [0x02, 0x10, 0x01] ISO15765_TYPE_CAN_FD 0x7A5 zero_stack
   = Inr (0, \<lparr>data_bus_type = ISO15765_TYPE_CAN_FD, data_id = 0x7A5, data_len = 0,
             number_of_addresses_valid = 2, source_address = 5, target_address = 0xA\<rparr>)"
proof -
  let ?x = "\<lparr>extended_address = True, can_id = 0x700, can_id_mask = 0xF00,
             source_addr_mask = 0x00F, target_addr_mask = 0x0F0, ecu_addr_mask = 0\<rparr>"
  let ?e = "\<lparr>extended_address = False, can_id = 0x700, can_id_mask = 0xF00,
             source_addr_mask = 0, target_addr_mask = 0, ecu_addr_mask = 0x0F0\<rparr>"
  let ?p = "\<lparr>extended_address = False, can_id = 0x7A0, can_id_mask = 0xFF0,
             source_addr_mask = 0x00F, target_addr_mask = 0x0F0, ecu_addr_mask = 0\<rparr>"
  let ?cfg1 = "default_prefs\<lparr>config_can_addr_mappings := Some ([?x] @ ?e # [?p])\<rparr>"
  let ?cfg2 = "default_prefs\<lparr>config_can_addr_mappings := Some ([?x] @ ?p # [?e])\<rparr>"
  have i: "can_ext_id 0x7A5 = False" "can_id_of 0x7A5 = 0x7A5"
    by (simp_all add: can_ext_id_def can_id_of_def CAN_EFF_FLAG_def CAN_SFF_MASK_def)
  have a1: "addressing ?cfg1 = NORMAL_ADDRESSING" and a2: "addressing ?cfg2 = NORMAL_ADDRESSING"
    by (simp_all add: default_prefs_def)
  have b1: "ISO15765_TYPE_CAN = ISO15765_TYPE_CAN \<or> ISO15765_TYPE_CAN = ISO15765_TYPE_CAN_FD"
    and b2: "ISO15765_TYPE_CAN_FD = ISO15765_TYPE_CAN \<or> ISO15765_TYPE_CAN_FD = ISO15765_TYPE_CAN_FD"
    by simp_all
  have c1: "config_can_addr_mappings ?cfg1 = Some ([?x] @ ?e # [?p])"
    and c2: "config_can_addr_mappings ?cfg2 = Some ([?x] @ ?p # [?e])"
    by simp_all
  have d: "\<forall>m \<in> set [?x]. extended_address m \<noteq> can_ext_id 0x7A5
              \<or> can_id m AND can_id_mask m \<noteq> can_id_of 0x7A5 AND can_id_mask m"
    by (simp add: i)
  have e1: "extended_address ?e = can_ext_id 0x7A5"
    and e2: "extended_address ?p = can_ext_id 0x7A5"
    by (simp_all add: i)
  have f1: "can_id ?e AND can_id_mask ?e = can_id_of 0x7A5 AND can_id_mask ?e"
    and f2: "can_id ?p AND can_id_mask ?p = can_id_of 0x7A5 AND can_id_mask ?p"
    by (simp_all add: i)
  have k4: "bit (0x0F0 :: guint32) 4" "take_bit 4 (0x0F0 :: guint32) = 0"
    and k0: "bit (0x00F :: guint32) 0" "take_bit 0 (0x00F :: guint32) = 0"
    by (simp_all add: bit_numeral_Bit0_Suc_iff bit_numeral_Bit1_Suc_iff numeral_eq_Suc
        take_bit_eq_mod)
  have v: "drop_bit 4 ((0x7A5 :: guint32) AND 0x0F0) = 0xA"
    "drop_bit 0 ((0x7A5 :: guint32) AND 0x00F) = 5"
    by (simp_all add: drop_bit_eq_div)
  from C6_matching_rule_resolution [OF a1 b1 c1 d e1 f1, where k = 4
      and tvb = "[0x02, 0x10, 0x01]" and stack = zero_stack]
  have one: "resolve_addresses ?cfg1 [0x02, 0x10, 0x01] ISO15765_TYPE_CAN 0x7A5 zero_stack
     = Inr (0, \<lparr>data_bus_type = ISO15765_TYPE_CAN, data_id = 0x7A5, data_len = 0,
             number_of_addresses_valid = 1, source_address = 0xA, target_address = 0xA\<rparr>)"
    using k4 by (simp add: i v zero_stack_def)
  from C6_matching_rule_resolution [OF a2 b2 c2 d e2 f2, where ks = 0 and kt = 4
      and tvb = "[0x02, 0x10, 0x01]" and stack = zero_stack]
  have two: "resolve_addresses ?cfg2 [0x02, 0x10, 0x01] ISO15765_TYPE_CAN_FD 0x7A5 zero_stack
     = Inr (0, \<lparr>data_bus_type = ISO15765_TYPE_CAN_FD, data_id = 0x7A5, data_len = 0,
             number_of_addresses_valid = 2, source_address = 5, target_address = 0xA\<rparr>)"
    using k4 k0 by (simp add: i v zero_stack_def)
  from one two show ?thesis by simp
qed

subsection \<open>Single frames\<close>

text \<open>
  C8. Let \<open>ae\<close> be the length of the address prefix, so that the control byte is
  \<open>tvb ! ae\<close>. A Single Frame whose control byte is \<open>L\<close> with \<open>L\<close> in 1..7 (type
  nibble 0, low nibble \<open>L\<close>) hands \<open>L\<close> bytes to the next dissector, starting right after
  the control byte, as a complete message. A Single Frame whose control byte is 0 on a
  frame longer than 8 bytes hands over as many bytes as the following length byte says,
  starting after that byte. In both cases the frame is assumed to hold the bytes it
  announces (a shorter one raises a bounds error).
\<close>

theorem C8_single_frame_payload:
  assumes addr: "resolve_addresses cfg tvb bus_type frame_id stack = Inr (ae, d)"
      and pci: "unat ae < length tvb"
  shows "(tvb ! unat ae \<in> {1, 2, 3, 4, 5, 6, 7}
            \<and> unat ae + 1 + unat (tvb ! unat ae) \<le> length tvb \<longrightarrow>
          res_next (snd (dissect_iso15765 cfg reassemble stack st tvb pinfo bus_type frame_id
                           frame_length))
            = Some (True, take (unat (tvb ! unat ae)) (drop (unat ae + 1) tvb),
                    d\<lparr>data_len := frame_length\<rparr>)
          \<and> length (take (unat (tvb ! unat ae)) (drop (unat ae + 1) tvb))
              = unat (tvb ! unat ae))
       \<and> (tvb ! unat ae = 0 \<and> frame_length > 8 \<and> unat ae + 1 < length tvb
            \<and> unat ae + 2 + unat (tvb ! (unat ae + 1)) \<le> length tvb \<longrightarrow>
          res_next (snd (dissect_iso15765 cfg reassemble stack st tvb pinfo bus_type frame_id
                           frame_length))
            = Some (True, take (unat (tvb ! (unat ae + 1))) (drop (unat ae + 2) tvb),
                    d\<lparr>data_len := frame_length\<rparr>)
          \<and> length (take (unat (tvb ! (unat ae + 1))) (drop (unat ae + 2) tvb))
              = unat (tvb ! (unat ae + 1)))"
proof (intro conjI impI)
  assume h: "tvb ! unat ae \<in> {1, 2, 3, 4, 5, 6, 7}
               \<and> unat ae + 1 + unat (tvb ! unat ae) \<le> length tvb"
  let ?b = "tvb ! unat ae"
  let ?l = "\<lparr>l_offset = ucast ae + 1,
             l_data_length = ucast (masked_guint16_value (ucast ?b) 0x0F),
             l_frag_id_low = 0, l_fragmented = False,
             l_next_tvb = Some (tvb_new_subset_length tvb (ucast ae + 1)
                                  (ucast (masked_guint16_value (ucast ?b) 0x0F))),
             l_complete = True, l_save = NoSave\<rparr>"
  from h have b: "masked_guint16_value (ucast ?b) 0xF0 = 0"
      "masked_guint16_value (ucast ?b) 0x0F = ucast ?b"
      "(ucast ?b :: guint16) AND 0x0F \<noteq> 0"
      "unat (ucast (ucast ?b :: guint16) :: guint32) = unat ?b"
    using sf_byte [of ?b] by simp_all
  have p: "parse_frame cfg stack tvb bus_type frame_id frame_length = Inr (Some (d, ?l))"
    using addr pci b(1,3)
    by (simp add: parse_frame_def tvb_get_guint8_def dissect_pci_single)
  have ok: "show_data_ok tvb ?l"
    using h b by (simp add: show_data_ok_def unat_ae_1)
  show "res_next (snd (dissect_iso15765 cfg reassemble stack st tvb pinfo bus_type frame_id
                           frame_length))
            = Some (True, take (unat ?b) (drop (unat ae + 1) tvb), d\<lparr>data_len := frame_length\<rparr>)"
    using dissect_unfragmented [OF p _ _ ok, of reassemble st pinfo] b
    by (simp add: hand_over_def tvb_new_subset_length_def unat_ae_1)
  from h have "unat ae + 1 + unat ?b \<le> length tvb" by (rule conjunct2)
  then show "length (take (unat ?b) (drop (unat ae + 1) tvb)) = unat ?b"
    by (auto simp add: min_def)
next
  assume h: "tvb ! unat ae = 0 \<and> frame_length > 8 \<and> unat ae + 1 < length tvb
            \<and> unat ae + 2 + unat (tvb ! (unat ae + 1)) \<le> length tvb"
  let ?n = "tvb ! (unat ae + 1)"
  let ?l = "\<lparr>l_offset = ucast ae + 2, l_data_length = ucast ?n,
                l_frag_id_low = 0, l_fragmented = False,
                l_next_tvb = Some (tvb_new_subset_length tvb (ucast ae + 2) (ucast ?n)),
                l_complete = True, l_save = NoSave\<rparr>"
  have p: "parse_frame cfg stack tvb bus_type frame_id frame_length = Inr (Some (d, ?l))"
    using addr pci h
    by (simp add: parse_frame_def tvb_get_guint8_def dissect_pci_single_fd message_type16)
  have ok: "show_data_ok tvb ?l"
    using h by (simp add: show_data_ok_def unat_ae_2 unat_byte32)
  show "res_next (snd (dissect_iso15765 cfg reassemble stack st tvb pinfo bus_type frame_id
                           frame_length))
            = Some (True, take (unat ?n) (drop (unat ae + 2) tvb), d\<lparr>data_len := frame_length\<rparr>)"
    using dissect_unfragmented [OF p _ _ ok, of reassemble st pinfo]
    by (simp add: hand_over_def tvb_new_subset_length_def unat_ae_2 unat_byte32)
  from h have "unat ae + 2 + unat ?n \<le> length tvb" by simp
  then show "length (take (unat ?n) (drop (unat ae + 2) tvb)) = unat ?n"
    by (auto simp add: min_def)
qed

theorem C8_single_frame_payload_witness:
  "res_next (snd (dissect_iso15765 default_prefs reassembly_routines zero_stack new_session
                    [0x03, 0xAA, 0xBB, 0xCC, 0, 0, 0, 0]
                    \<lparr>pinfo_num = 1, pinfo_visited = False\<rparr> ISO15765_TYPE_CAN 0x7E0 8))
     = Some (True, [0xAA, 0xBB, 0xCC], zero_stack\<lparr>data_id := 0x7E0, data_len := 8\<rparr>)
   \<and> res_next (snd (dissect_iso15765 default_prefs reassembly_routines zero_stack new_session
                    [0x00, 0x09, 1, 2, 3, 4, 5, 6, 7, 8, 9, 0]
                    \<lparr>pinfo_num = 2, pinfo_visited = False\<rparr> ISO15765_TYPE_CAN_FD 0x7E0 12))
     = Some (True, [1, 2, 3, 4, 5, 6, 7, 8, 9],
             zero_stack\<lparr>data_bus_type := ISO15765_TYPE_CAN_FD, data_id := 0x7E0, data_len := 12\<rparr>)"
proof -
  have a1: "resolve_addresses default_prefs [0x03, 0xAA, 0xBB, 0xCC, 0, 0, 0, 0]
              ISO15765_TYPE_CAN 0x7E0 zero_stack
            = Inr (0, zero_stack\<lparr>data_id := 0x7E0\<rparr>)"
    by (simp add: resolve_default_can zero_stack_def)
  have a2: "resolve_addresses default_prefs [0x00, 0x09, 1, 2, 3, 4, 5, 6, 7, 8, 9, 0]
              ISO15765_TYPE_CAN_FD 0x7E0 zero_stack
            = Inr (0, zero_stack\<lparr>data_bus_type := ISO15765_TYPE_CAN_FD, data_id := 0x7E0\<rparr>)"
    by (simp add: resolve_addresses_def find_config_can_addr_mapping_def default_prefs_def
        zero_stack_def)
  show ?thesis
    using C8_single_frame_payload [OF a1, of reassembly_routines new_session
            "\<lparr>pinfo_num = 1, pinfo_visited = False\<rparr>" 8]
          C8_single_frame_payload [OF a2, of reassembly_routines new_session
            "\<lparr>pinfo_num = 2, pinfo_visited = False\<rparr>" 12]
    by simp
qed

subsection \<open>Binding of consecutive frames\<close>

text \<open>
  C2, as stated, fails: a consecutive frame is not assigned to the sequence of the first
  frame seen on its own link identity. First frames on CAN identifiers \<open>0x100\<close> and
  \<open>0x200\<close> allocate the sequences 1 and 2; the consecutive frame that follows on
  \<open>0x100\<close> is assigned to sequence 2 and handed to reassembly under that id.
\<close>

theorem C2_other_link_first_frame_counterexample:
  "map (\<lambda>r. (ident_seq (res_ident r), map_option fa_id (res_fragment r)))
     (snd (dissect_stream default_prefs reassembly_routines zero_stack False 1 new_session
        [can_frame 0x100 [0x10, 0x14, 1, 2, 3, 4, 5, 6],
         can_frame 0x200 [0x10, 0x14, 21, 22, 23, 24, 25, 26],
         can_frame 0x100 [0x21, 7, 8, 9, 10, 11, 12, 13]]))
   = [(1, Some 1), (2, Some 2), (2, Some 2)]"
  by code_simp

text \<open>
  C2, amended. On the first pass every consecutive frame, whatever its link type and
  identifier, is assigned the sequence id the counter holds, that is the sequence of the
  first frame seen last on any link. When no frame entry exists under that id (no first
  frame seen yet in the session), the frame is dropped: nothing goes to reassembly or to
  the next dissector, nothing is raised, and only the packet's own identifier is stored;
  the counter, the frame table and the reassembly table stay as they are.
\<close>

theorem C2_consecutive_frame_takes_current_sequence:
  assumes "consecutive_frame cfg stack f = Some (n, dl)"
  shows "ident_seq (res_ident (snd (dissect_iso15765 cfg reassemble stack st (lf_tvb f)
                                      \<lparr>pinfo_num = k, pinfo_visited = False\<rparr>
                                      (lf_bus_type f) (lf_frame_id f) (lf_frame_length f))))
           = msg_seqid st
       \<and> (iso15765_frame_table st (msg_seqid st) = None \<longrightarrow>
            dissect_iso15765 cfg reassemble stack st (lf_tvb f)
                \<lparr>pinfo_num = k, pinfo_visited = False\<rparr>
                (lf_bus_type f) (lf_frame_id f) (lf_frame_length f)
            = (store_ident st \<lparr>pinfo_num = k, pinfo_visited = False\<rparr>
                 ((get_ident st \<lparr>pinfo_num = k, pinfo_visited = False\<rparr> (lf_frame_id f))
                    \<lparr>ident_seq := msg_seqid st\<rparr>),
               \<lparr>res_ident = (get_ident st \<lparr>pinfo_num = k, pinfo_visited = False\<rparr>
                               (lf_frame_id f))\<lparr>ident_seq := msg_seqid st\<rparr>,
                res_fragment = None, res_next = None, res_exn = None\<rparr>))"
proof -
  let ?p = "\<lparr>pinfo_num = k, pinfo_visited = False\<rparr>"
  let ?i = "get_ident st ?p (lf_frame_id f)"
  from assms obtain d l where
    p: "parse_frame cfg stack (lf_tvb f) (lf_bus_type f) (lf_frame_id f) (lf_frame_length f)
       = Inr (Some (d, l))"
    and q: "l_save l = SaveConsecutiveFrame" "l_fragmented l" "show_data_ok (lf_tvb f) l"
      "l_next_tvb l = None" "\<not> l_complete l"
    by (rule consecutive_frameD)
  note step = dissect_fragment [OF p q(2,3), of reassemble st ?p]
  have sv: "save_info (store_ident st ?p ?i) ?p ?i SaveConsecutiveFrame
              = (store_ident st ?p ?i, ?i\<lparr>ident_seq := msg_seqid st\<rparr>)"
    by (simp add: save_info_consecutive)
  have "ident_seq (res_ident (snd (dissect_iso15765 cfg reassemble stack st (lf_tvb f) ?p
                                      (lf_bus_type f) (lf_frame_id f) (lf_frame_length f))))
           = msg_seqid st"
    using reassemble_fragment_seq [of cfg reassemble "lf_tvb f" ?p l "store_ident st ?p ?i"
            "?i\<lparr>ident_seq := msg_seqid st\<rparr>"]
    by (auto simp add: step q(1) sv thrown_def hand_over_def split: prod.splits sum.splits)
  moreover have "iso15765_frame_table st (msg_seqid st) = None \<longrightarrow>
            dissect_iso15765 cfg reassemble stack st (lf_tvb f) ?p
                (lf_bus_type f) (lf_frame_id f) (lf_frame_length f)
            = (store_ident st ?p (?i\<lparr>ident_seq := msg_seqid st\<rparr>),
               \<lparr>res_ident = ?i\<lparr>ident_seq := msg_seqid st\<rparr>,
                res_fragment = None, res_next = None, res_exn = None\<rparr>)"
    by (simp add: step q sv reassemble_fragment_unbound hand_over_def)
  ultimately show ?thesis by simp
qed

theorem C2_consecutive_frame_takes_current_sequence_witness:
  "consecutive_frame default_prefs zero_stack (can_frame 0x100 [0x21, 7, 8, 9, 10, 11, 12, 13])
     = Some (1, 7)
   \<and> dissect_iso15765 default_prefs reassembly_routines zero_stack new_session
         [0x21, 7, 8, 9, 10, 11, 12, 13] \<lparr>pinfo_num = 5, pinfo_visited = False\<rparr>
         ISO15765_TYPE_CAN 0x100 8
       = (store_ident new_session \<lparr>pinfo_num = 5, pinfo_visited = False\<rparr> (new_identifier 0x100),
          \<lparr>res_ident = new_identifier 0x100, res_fragment = None, res_next = None,
           res_exn = None\<rparr>)"
proof -
  have a: "consecutive_frame default_prefs zero_stack
             (can_frame 0x100 [0x21, 7, 8, 9, 10, 11, 12, 13]) = Some (1, 7)"
    by code_simp
  have b: "iso15765_frame_table new_session (msg_seqid new_session) = None"
    by (simp add: new_session_def)
  have c: "get_ident new_session \<lparr>pinfo_num = 5, pinfo_visited = False\<rparr> 0x100
             = new_identifier 0x100"
    by (simp add: get_ident_def new_session_def)
  have d: "(new_identifier 0x100)\<lparr>ident_seq := msg_seqid new_session\<rparr> = new_identifier 0x100"
    by (simp add: new_identifier_def new_session_def)
  show ?thesis
    using C2_consecutive_frame_takes_current_sequence
            [OF a, of reassembly_routines new_session 5] a b
    by (simp add: can_frame_def c d)
qed

subsection \<open>Expanded fragment ids\<close>

text \<open>
  C10. On the first pass a first frame is handed to reassembly under the sequence id it
  allocates, with fragment id 0, and leaves the wrap counter of low id 0 at 1.
  Consequently, after any consecutive frames with nonzero sequence nibble, the first
  consecutive frame with nibble 0 is assigned expanded fragment id 16, and belongs to the
  sequence of that first frame.
\<close>

theorem C10_first_frame_takes_fragment_id_0:
  assumes ff: "first_frame cfg stack ff = Some (full_len, dl0)"
    and mid: "\<forall>f \<in> set cfs. \<exists>n dl. consecutive_frame cfg stack f = Some (n, dl) \<and> n \<noteq> 0"
    and cf: "consecutive_frame cfg stack cf = Some (0, dl1)"
  shows "map_option (\<lambda>c. (fa_id c, fa_frag_number c))
           (res_fragment (hd (snd (dissect_stream cfg reassemble stack False k st
                                     (ff # cfs @ [cf])))))
           = Some (msg_seqid st + 1, 0)
       \<and> map_option (\<lambda>fr. frag_id_high fr ! 0)
           (iso15765_frame_table (fst (dissect_stream cfg reassemble stack False k st [ff]))
              (msg_seqid st + 1))
           = Some 1
       \<and> ident_seq (res_ident (last (snd (dissect_stream cfg reassemble stack False k st
                                            (ff # cfs @ [cf])))))
           = msg_seqid st + 1
       \<and> ident_frag_id (res_ident (last (snd (dissect_stream cfg reassemble stack False k st
                                                (ff # cfs @ [cf])))))
           = 16"
proof -
  let ?s = "msg_seqid st + 1"
  let ?fr0 = "(new_frame ?s full_len)
                \<lparr>frag_id_high := (replicate 16 0)[0 := 1], frame_offset := dl0,
                 frame_complete := (dl0 \<ge> full_len)\<rparr>"
  from ff_step [OF ff, of reassemble st k] obtain st1 r1 c where
    s1: "dissect_iso15765 cfg reassemble stack st (lf_tvb ff)
           \<lparr>pinfo_num = k, pinfo_visited = False\<rparr>
           (lf_bus_type ff) (lf_frame_id ff) (lf_frame_length ff) = (st1, r1)"
    and m1: "msg_seqid st1 = ?s"
    and t1: "iso15765_frame_table st1 = (iso15765_frame_table st)(?s \<mapsto> ?fr0)"
    and c1: "res_fragment r1 = Some c" "fa_id c = ?s" "fa_frag_number c = 0"
    by blast
  have b1: "iso15765_frame_table st1 (msg_seqid st1) = Some ?fr0" by (simp add: m1 t1)
  have l1: "length (frag_id_high ?fr0) = 16" "frag_id_high ?fr0 ! 0 = 1" by simp_all
  let ?st2 = "fst (dissect_stream cfg reassemble stack False (Suc k) st1 cfs)"
  from nonzero_run_keeps_counter [OF mid b1 l1, of reassemble "Suc k"] obtain fr2 where
    b2: "iso15765_frame_table ?st2 (msg_seqid st1) = Some fr2"
    and m2: "msg_seqid ?st2 = msg_seqid st1"
    and l2: "length (frag_id_high fr2) = 16" "frag_id_high fr2 ! 0 = 1"
    by blast
  from b2 m2 have b2': "iso15765_frame_table ?st2 (msg_seqid ?st2) = Some fr2" by simp
  from cf_step [OF cf b2', of reassemble "Suc (k + length cfs)"] l2 obtain st3 r3 where
    s3: "dissect_iso15765 cfg reassemble stack ?st2 (lf_tvb cf)
           \<lparr>pinfo_num = Suc (k + length cfs), pinfo_visited = False\<rparr>
           (lf_bus_type cf) (lf_frame_id cf) (lf_frame_length cf) = (st3, r3)"
    and q3: "ident_seq (res_ident r3) = msg_seqid ?st2"
      "ident_frag_id (res_ident r3) = 0 + ucast (1 :: guint8) * 16"
    by auto
  have rs: "snd (dissect_stream cfg reassemble stack False k st (ff # cfs @ [cf]))
              = r1 # snd (dissect_stream cfg reassemble stack False (Suc k) st1 cfs) @ [r3]"
    by (simp add: dissect_stream_Cons_snd dissect_stream_append_snd s1 s3
        del: dissect_stream.simps(2))
  have st: "fst (dissect_stream cfg reassemble stack False k st [ff]) = st1"
    by (simp add: s1)
  show ?thesis
    using c1 q3 unfolding rs st by (simp add: t1 m1 m2)
qed

theorem C10_first_frame_takes_fragment_id_0_witness:
  "map_option (\<lambda>c. (fa_id c, fa_frag_number c))
     (res_fragment (hd (snd (dissect_stream default_prefs reassembly_routines zero_stack False 7
        new_session
        (can_frame 0x7E8 [0x10, 0x64, 1, 2, 3, 4, 5, 6]
         # [can_frame 0x7E8 [0x21, 1, 2, 3, 4, 5, 6, 7], can_frame 0x7E8 [0x22, 1, 2, 3, 4, 5, 6, 7]]
         @ [can_frame 0x7E8 [0x20, 1, 2, 3, 4, 5, 6, 7]])))))
     = Some (msg_seqid new_session + 1, 0)
   \<and> map_option (\<lambda>fr. frag_id_high fr ! 0)
       (iso15765_frame_table
          (fst (dissect_stream default_prefs reassembly_routines zero_stack False 7 new_session
                  [can_frame 0x7E8 [0x10, 0x64, 1, 2, 3, 4, 5, 6]]))
          (msg_seqid new_session + 1))
     = Some 1
   \<and> ident_seq (res_ident (last (snd (dissect_stream default_prefs reassembly_routines zero_stack
        False 7 new_session
        (can_frame 0x7E8 [0x10, 0x64, 1, 2, 3, 4, 5, 6]
         # [can_frame 0x7E8 [0x21, 1, 2, 3, 4, 5, 6, 7], can_frame 0x7E8 [0x22, 1, 2, 3, 4, 5, 6, 7]]
         @ [can_frame 0x7E8 [0x20, 1, 2, 3, 4, 5, 6, 7]])))))
     = msg_seqid new_session + 1
   \<and> ident_frag_id (res_ident (last (snd (dissect_stream default_prefs reassembly_routines
        zero_stack False 7 new_session
        (can_frame 0x7E8 [0x10, 0x64, 1, 2, 3, 4, 5, 6]
         # [can_frame 0x7E8 [0x21, 1, 2, 3, 4, 5, 6, 7], can_frame 0x7E8 [0x22, 1, 2, 3, 4, 5, 6, 7]]
         @ [can_frame 0x7E8 [0x20, 1, 2, 3, 4, 5, 6, 7]])))))
     = 16"
proof -
  have ff: "first_frame default_prefs zero_stack (can_frame 0x7E8 [0x10, 0x64, 1, 2, 3, 4, 5, 6])
              = Some (100, 6)"
    by code_simp
  have c1: "consecutive_frame default_prefs zero_stack
              (can_frame 0x7E8 [0x21, 1, 2, 3, 4, 5, 6, 7]) = Some (1, 7)"
    by code_simp
  have c2: "consecutive_frame default_prefs zero_stack
              (can_frame 0x7E8 [0x22, 1, 2, 3, 4, 5, 6, 7]) = Some (2, 7)"
    by code_simp
  have c0: "consecutive_frame default_prefs zero_stack
              (can_frame 0x7E8 [0x20, 1, 2, 3, 4, 5, 6, 7]) = Some (0, 7)"
    by code_simp
  have mid: "\<forall>f \<in> set [can_frame 0x7E8 [0x21, 1, 2, 3, 4, 5, 6, 7],
                            can_frame 0x7E8 [0x22, 1, 2, 3, 4, 5, 6, 7]].
               \<exists>n dl. consecutive_frame default_prefs zero_stack f = Some (n, dl) \<and> n \<noteq> 0"
    by (simp add: c1 c2)
  show ?thesis
    by (rule C10_first_frame_takes_fragment_id_0 [OF ff mid c0])
qed

text \<open>
  C3. Within one message (a first frame followed by consecutive frames, first pass) the
  expanded fragment id assigned to each fragment is its low id plus 16 times the number
  of prior fragments of the message with that low id, the first frame counting as low id
  0; that number is the value of the wrap counter of the low id, which each fragment
  steps by one. No low id may occur more than 255 times (the next occurrence fails the
  assertion). So first frame, nibbles 1 to 15, 0, 1 expand to 0, 1, ..., 17.
\<close>

theorem C3_expanded_fragment_ids:
  assumes ff: "first_frame cfg stack ff = Some (full_len, dl0)"
    and cfs: "map (\<lambda>f. map_option fst (consecutive_frame cfg stack f)) cfs = map Some ns"
    and lim: "\<forall>n \<in> set (0 # ns). count_list (0 # ns) n \<le> 255"
  shows "map (\<lambda>r. unat (ident_frag_id (res_ident r)))
           (snd (dissect_stream cfg reassemble stack False k st (ff # cfs)))
           = spec_expanded_ids [] (0 # ns)
       \<and> (\<forall>i < length (0 # ns).
            unat (ident_frag_id (res_ident
                   (snd (dissect_stream cfg reassemble stack False k st (ff # cfs)) ! i)))
              = unat ((0 # ns) ! i) + 16 * count_list (take i (0 # ns)) ((0 # ns) ! i))"
proof -
  let ?s = "msg_seqid st + 1"
  let ?fr0 = "(new_frame ?s full_len)
                \<lparr>frag_id_high := (replicate 16 0)[0 := 1], frame_offset := dl0,
                 frame_complete := (dl0 \<ge> full_len)\<rparr>"
  from ff_step [OF ff, of reassemble st k] obtain st1 r1 where
    s1: "dissect_iso15765 cfg reassemble stack st (lf_tvb ff)
           \<lparr>pinfo_num = k, pinfo_visited = False\<rparr>
           (lf_bus_type ff) (lf_frame_id ff) (lf_frame_length ff) = (st1, r1)"
    and m1: "msg_seqid st1 = ?s"
    and t1: "iso15765_frame_table st1 = (iso15765_frame_table st)(?s \<mapsto> ?fr0)"
    and i1: "ident_frag_id (res_ident r1) = 0"
    by blast
  have b1: "iso15765_frame_table st1 (msg_seqid st1) = Some ?fr0" by (simp add: m1 t1)
  have l1: "length (frag_id_high ?fr0) = 16" by simp
  have rel: "\<forall>n<16. unat (frag_id_high ?fr0 ! unat n) = count_list [0] (n :: guint16)"
  proof (intro allI impI)
    fix n :: guint16
    assume n16: "n < 16"
    then have un: "unat n < 16" by (rule unat_nibble)
    show "unat (frag_id_high ?fr0 ! unat n) = count_list [0] n"
    proof (cases "n = 0")
      case True
      then show ?thesis by simp
    next
      case False
      then have "unat n \<noteq> 0" by (simp add: unat_eq_zero)
      then show ?thesis using un False by simp
    qed
  qed
  have lim': "\<forall>n \<in> set ns. count_list ([0] @ ns) n \<le> 255" using lim by simp
  have run: "map (\<lambda>r. unat (ident_frag_id (res_ident r)))
               (snd (dissect_stream cfg reassemble stack False (Suc k) st1 cfs))
               = spec_expanded_ids [0] ns"
    by (rule cf_run_expanded_ids [OF consecutive_nibbles [OF cfs] b1 l1 rel lim'])
  have all: "map (\<lambda>r. unat (ident_frag_id (res_ident r)))
           (snd (dissect_stream cfg reassemble stack False k st (ff # cfs)))
           = spec_expanded_ids [] (0 # ns)"
    using run by (simp add: dissect_stream_Cons_snd s1 i1 del: dissect_stream.simps(2))
  have "\<forall>i < length (0 # ns).
            unat (ident_frag_id (res_ident
                   (snd (dissect_stream cfg reassemble stack False k st (ff # cfs)) ! i)))
              = unat ((0 # ns) ! i) + 16 * count_list (take i (0 # ns)) ((0 # ns) ! i)"
  proof (intro allI impI)
    fix i assume i: "i < length (0 # ns)"
    let ?rs = "snd (dissect_stream cfg reassemble stack False k st (ff # cfs))"
    have "length ?rs = length (0 # ns)"
      using arg_cong [OF all, of length] by (simp add: spec_expanded_ids_length)
    with i have "unat (ident_frag_id (res_ident (?rs ! i)))
                   = map (\<lambda>r. unat (ident_frag_id (res_ident r))) ?rs ! i"
      by simp
    also have "\<dots> = spec_expanded_ids [] (0 # ns) ! i" by (simp only: all)
    also have "\<dots> = unat ((0 # ns) ! i) + 16 * count_list (take i (0 # ns)) ((0 # ns) ! i)"
      using spec_expanded_ids_nth [OF i, of "[]"] by simp
    finally show "unat (ident_frag_id (res_ident (?rs ! i)))
                   = unat ((0 # ns) ! i) + 16 * count_list (take i (0 # ns)) ((0 # ns) ! i)" .
  qed
  with all show ?thesis by (rule conjI)
qed

theorem C3_expanded_fragment_ids_witness:
  "map (\<lambda>r. unat (ident_frag_id (res_ident r)))
     (snd (dissect_stream default_prefs reassembly_routines zero_stack False 1 new_session
        (can_frame 0x7E8 [0x11, 0x00, 1, 2, 3, 4, 5, 6]
         # map (\<lambda>b. can_frame 0x7E8 [b, 1, 2, 3, 4, 5, 6, 7])
             [0x21, 0x22, 0x23, 0x24, 0x25, 0x26, 0x27, 0x28, 0x29, 0x2A, 0x2B, 0x2C, 0x2D,
              0x2E, 0x2F, 0x20, 0x21])))
     = [0, 1, 2, 3, 4, 5, 6, 7, 8, 9, 10, 11, 12, 13, 14, 15, 16, 17]"
proof -
  let ?cfs = "map (\<lambda>b. can_frame 0x7E8 [b, 1, 2, 3, 4, 5, 6, 7])
             [0x21, 0x22, 0x23, 0x24, 0x25, 0x26, 0x27, 0x28, 0x29, 0x2A, 0x2B, 0x2C, 0x2D,
              0x2E, 0x2F, 0x20, 0x21]"
  let ?ns = "[1, 2, 3, 4, 5, 6, 7, 8, 9, 10, 11, 12, 13, 14, 15, 0, 1] :: guint16 list"
  have ff: "first_frame default_prefs zero_stack (can_frame 0x7E8 [0x11, 0x00, 1, 2, 3, 4, 5, 6])
              = Some (256, 6)"
    by code_simp
  have cfs: "map (\<lambda>f. map_option fst (consecutive_frame default_prefs zero_stack f)) ?cfs
               = map Some ?ns"
    by code_simp
  have lim: "\<forall>n \<in> set (0 # ?ns). count_list (0 # ?ns) n \<le> 255"
    by code_simp
  have e: "spec_expanded_ids [] (0 # ?ns)
             = [0, 1, 2, 3, 4, 5, 6, 7, 8, 9, 10, 11, 12, 13, 14, 15, 16, 17]"
    by code_simp
  from C3_expanded_fragment_ids [OF ff cfs lim, of reassembly_routines 1 new_session]
  show ?thesis by (simp only: e)
qed

subsection \<open>The window check\<close>

text \<open>
  C1, as stated, fails: a consecutive frame whose expanded id exceeds the highest id seen
  plus the window does not put its sequence in error. After a first frame (highest id 0)
  a consecutive frame with nibble 9 gets id 9, which exceeds 0 + 8; it is handed to
  reassembly, and the sequence is not in error.
\<close>

theorem C1_jump_ahead_counterexample:
  "(case dissect_stream default_prefs reassembly_routines zero_stack False 1 new_session
           [can_frame 0x7E8 [0x10, 0x64, 1, 2, 3, 4, 5, 6],
            can_frame 0x7E8 [0x29, 1, 2, 3, 4, 5, 6, 7]] of
      (st, rs) \<Rightarrow>
        (map (\<lambda>r. map_option fa_frag_number (res_fragment r)) rs,
         map_option (\<lambda>fr. (frame_error fr, last_frag_id fr)) (iso15765_frame_table st 1)))
   = ([Some 0, Some 9], Some (False, 9))
   \<and> ((0 :: guint32) + window default_prefs < 9)"
  by code_simp

text \<open>
  C1, amended. The check of line 815 looks the other way. Take a first frame and the
  consecutive frames after it on a first pass, from any state and with any reassembly
  routines, no low id occurring more than 255 times; their expanded ids are those of C3. A
  fragment is dropped (not handed to reassembly, and not handed on as a complete message)
  exactly when it or an earlier fragment of the message lags: its expanded id plus the
  window is below the highest expanded id seen before it. The sequence ends in error
  exactly when some fragment lags, and its accumulated byte count is the sum of the payload
  lengths of the fragments that were not dropped. While no fragment lags, the entry's
  \<^verbatim>\<open>last_frag_id\<close> is the highest expanded id seen.
\<close>

theorem C1_lagging_fragment_errors_sequence:
  fixes st :: "'r iso15765_state"
  assumes ff: "first_frame cfg stack f = Some (full_len, dl0)"
    and cfs: "list_all2 (\<lambda>f nd. consecutive_frame cfg stack f = Some nd) cfs nds"
    and lim: "\<forall>n \<in> set (map fst nds). count_list (0 # map fst nds) n \<le> 255"
  shows "map (\<lambda>r. res_fragment r = None)
           (snd (dissect_stream cfg reassemble stack False k st (f # cfs)))
           = map (spec_dropped (window cfg) (spec_expanded_ids [] (map fst ((0, dl0) # nds))))
               [0..<length ((0, dl0) # nds)]
       \<and> list_all (\<lambda>r. res_fragment r = None \<longrightarrow> map_option fst (res_next r) \<noteq> Some True)
           (snd (dissect_stream cfg reassemble stack False k st (f # cfs)))
       \<and> map_option (\<lambda>fr. (frame_error fr, frame_offset fr))
           (iso15765_frame_table (fst (dissect_stream cfg reassemble stack False k st (f # cfs)))
              (msg_seqid st + 1))
           = Some (list_ex (spec_lags (window cfg)
                              (spec_expanded_ids [] (map fst ((0, dl0) # nds))))
                     [0..<length ((0, dl0) # nds)],
                   sum_list
                     (map (\<lambda>j. if spec_dropped (window cfg)
                                      (spec_expanded_ids [] (map fst ((0, dl0) # nds))) j
                                 then 0 else snd (((0, dl0) # nds) ! j))
                        [0..<length ((0, dl0) # nds)]))
       \<and> (\<not> list_ex (spec_lags (window cfg) (spec_expanded_ids [] (map fst ((0, dl0) # nds))))
               [0..<length ((0, dl0) # nds)] \<longrightarrow>
            map_option (\<lambda>fr. unat (last_frag_id fr))
              (iso15765_frame_table
                 (fst (dissect_stream cfg reassemble stack False k st (f # cfs)))
                 (msg_seqid st + 1))
              = Some (spec_highest_seen (spec_expanded_ids [] (map fst ((0, dl0) # nds)))))"
proof -
  let ?w = "window cfg"
  let ?s = "msg_seqid st + 1"
  let ?ids = "spec_expanded_ids [] (0 # map fst nds)"
  let ?fr0 = "(new_frame ?s full_len)
                \<lparr>frag_id_high := (replicate 16 0)[0 := 1], frame_offset := dl0,
                 frame_complete := (dl0 \<ge> full_len)\<rparr>"
  let ?D = "dissect_iso15765 cfg reassemble stack st (lf_tvb f)
              \<lparr>pinfo_num = k, pinfo_visited = False\<rparr>
              (lf_bus_type f) (lf_frame_id f) (lf_frame_length f)"
  let ?run = "dissect_stream cfg reassemble stack False (Suc k) (fst ?D) cfs"
  from ff_step [OF ff, of reassemble st k] obtain st1 r1 c1 where
    s1: "?D = (st1, r1)"
    and m1: "msg_seqid st1 = ?s"
    and t1: "iso15765_frame_table st1 = (iso15765_frame_table st)(?s \<mapsto> ?fr0)"
    and c1: "res_fragment r1 = Some c1"
    by blast
  have b1: "iso15765_frame_table (fst ?D) (msg_seqid (fst ?D)) = Some ?fr0"
    by (simp add: s1 m1 t1)
  have l1: "length (frag_id_high ?fr0) = 16" by simp
  have rel: "\<forall>n<16. unat (frag_id_high ?fr0 ! unat n) = count_list [0] (n :: guint16)"
    using first_frame_counters by simp
  have lim1: "\<forall>n \<in> set (map fst nds). count_list ([0] @ map fst nds) n \<le> 255"
    using lim by simp
  have e0: "frame_error ?fr0
              = list_ex (spec_lags ?w (spec_expanded_ids [] [0])) [0..<length [0 :: guint16]]"
    by (simp add: new_frame_def spec_lags_def spec_highest_seen_def)
  have h0: "\<not> frame_error ?fr0 \<longrightarrow>
              unat (last_frag_id ?fr0) = spec_highest_seen (spec_expanded_ids [] [0])"
    by (simp add: new_frame_def spec_highest_seen_def)
  from cf_run_window [OF cfs b1 l1 rel lim1 e0 h0, of reassemble "Suc k"] obtain fr' where
    r: "iso15765_frame_table (fst ?run) (msg_seqid (fst ?D)) = Some fr'"
      "frame_error fr' = list_ex (spec_lags ?w (spec_expanded_ids [] ([0] @ map fst nds)))
                           [0..<length ([0 :: guint16] @ map fst nds)]"
      "\<not> frame_error fr' \<longrightarrow>
         unat (last_frag_id fr') = spec_highest_seen (spec_expanded_ids [] ([0] @ map fst nds))"
      "frame_offset fr'
         = frame_offset ?fr0
           + sum_list (map (\<lambda>j. if spec_dropped ?w (spec_expanded_ids [] ([0] @ map fst nds))
                                      (length [0 :: guint16] + j)
                                 then 0 else snd (nds ! j)) [0..<length nds])"
      "map (\<lambda>r. res_fragment r = None) (snd ?run)
         = map (\<lambda>j. spec_dropped ?w (spec_expanded_ids [] ([0] @ map fst nds))
                       (length [0 :: guint16] + j)) [0..<length nds]"
      "list_all (\<lambda>r. res_fragment r = None \<longrightarrow> map_option fst (res_next r) \<noteq> Some True)
         (snd ?run)"
    by (elim exE conjE) (rule that; assumption)
  have heads: "map (spec_dropped ?w ?ids) [0..<length ((0, dl0) # nds)]
                 = False # map (\<lambda>j. spec_dropped ?w ?ids (Suc j)) [0..<length nds]"
    by (simp add: map_upt_Suc spec_dropped_0 del: upt_Suc)
  have sums: "map (\<lambda>j. if spec_dropped ?w ?ids j then 0 else snd (((0, dl0) # nds) ! j))
                [0..<length ((0, dl0) # nds)]
                = dl0 # map (\<lambda>j. if spec_dropped ?w ?ids (Suc j) then 0 else snd (nds ! j))
                          [0..<length nds]"
    by (simp add: map_upt_Suc spec_dropped_0 del: upt_Suc cong: if_cong)
  have a: "map (\<lambda>r. res_fragment r = None)
             (snd (dissect_stream cfg reassemble stack False k st (f # cfs)))
             = map (spec_dropped ?w ?ids) [0..<length ((0, dl0) # nds)]"
    unfolding dissect_stream_Cons_snd heads
    using r(5) c1 by (simp add: s1)
  have b: "list_all (\<lambda>r. res_fragment r = None \<longrightarrow> map_option fst (res_next r) \<noteq> Some True)
             (snd (dissect_stream cfg reassemble stack False k st (f # cfs)))"
    unfolding dissect_stream_Cons_snd
    using r(6) c1 by (simp add: s1)
  have tbl: "iso15765_frame_table
               (fst (dissect_stream cfg reassemble stack False k st (f # cfs))) ?s = Some fr'"
    unfolding dissect_stream_Cons_fst using r(1) by (simp add: s1 m1)
  have off: "frame_offset fr'
               = sum_list (map (\<lambda>j. if spec_dropped ?w ?ids j
                                      then 0 else snd (((0, dl0) # nds) ! j))
                             [0..<length ((0, dl0) # nds)])"
    unfolding sums r(4) by simp
  from a b tbl off r(2) r(3) show ?thesis by simp
qed


theorem C1_lagging_fragment_errors_sequence_witness:
  "map (\<lambda>r. res_fragment r = None)
     (snd (dissect_stream default_prefs reassembly_routines zero_stack False 5 new_session
             (can_frame 0x7E8 [0x10, 0x64, 1, 2, 3, 4, 5, 6]
              # [can_frame 0x7E8 [0x21, 1, 2, 3, 4, 5, 6, 7],
                 can_frame 0x7E8 [0x21, 1, 2, 3, 4, 5, 6, 7],
                 can_frame 0x7E8 [0x21, 1, 2, 3, 4, 5, 6, 7],
                 can_frame 0x7E8 [0x22, 1, 2, 3, 4, 5, 6, 7],
                 can_frame 0x7E8 [0x23, 1, 2, 3, 4, 5, 6, 7],
                 can_frame 0x7E8 [0x24, 1, 2, 3, 4, 5, 6, 7]])))
     = [False, False, False, False, True, True, True]
   \<and> map_option (\<lambda>fr. (frame_error fr, frame_offset fr))
       (iso15765_frame_table
          (fst (dissect_stream default_prefs reassembly_routines zero_stack False 5 new_session
                  (can_frame 0x7E8 [0x10, 0x64, 1, 2, 3, 4, 5, 6]
                   # [can_frame 0x7E8 [0x21, 1, 2, 3, 4, 5, 6, 7],
                      can_frame 0x7E8 [0x21, 1, 2, 3, 4, 5, 6, 7],
                      can_frame 0x7E8 [0x21, 1, 2, 3, 4, 5, 6, 7],
                      can_frame 0x7E8 [0x22, 1, 2, 3, 4, 5, 6, 7],
                      can_frame 0x7E8 [0x23, 1, 2, 3, 4, 5, 6, 7],
                      can_frame 0x7E8 [0x24, 1, 2, 3, 4, 5, 6, 7]])))
          1)
       = Some (True, 27)"
proof -
  let ?ff = "can_frame 0x7E8 [0x10, 0x64, 1, 2, 3, 4, 5, 6]"
  let ?cfs = "[can_frame 0x7E8 [0x21, 1, 2, 3, 4, 5, 6, 7],
               can_frame 0x7E8 [0x21, 1, 2, 3, 4, 5, 6, 7],
               can_frame 0x7E8 [0x21, 1, 2, 3, 4, 5, 6, 7],
               can_frame 0x7E8 [0x22, 1, 2, 3, 4, 5, 6, 7],
               can_frame 0x7E8 [0x23, 1, 2, 3, 4, 5, 6, 7],
               can_frame 0x7E8 [0x24, 1, 2, 3, 4, 5, 6, 7]]"
  let ?nds = "[(1, 7), (1, 7), (1, 7), (2, 7), (3, 7), (4, 7)] :: (guint16 \<times> guint32) list"
  let ?ids = "spec_expanded_ids [] (map fst ((0, 6) # ?nds))"
  have ff: "first_frame default_prefs zero_stack ?ff = Some (100, 6)" by code_simp
  have cfs: "list_all2 (\<lambda>f nd. consecutive_frame default_prefs zero_stack f = Some nd) ?cfs ?nds"
    by code_simp
  have lim: "\<forall>n \<in> set (map fst ?nds). count_list (0 # map fst ?nds) n \<le> 255"
    by simp
  have d: "map (spec_dropped (window default_prefs) ?ids) [0..<length ((0, 6) # ?nds)]
             = [False, False, False, False, True, True, True]"
    by code_simp
  have e: "list_ex (spec_lags (window default_prefs) ?ids) [0..<length ((0, 6) # ?nds)] = True"
    by code_simp
  have o: "sum_list (map (\<lambda>j. if spec_dropped (window default_prefs) ?ids j
                               then 0 else snd (((0, 6) # ?nds) ! j))
                       [0..<length ((0, 6) # ?nds)]) = 27"
    by code_simp
  have s: "msg_seqid new_session + 1 = 1" by (simp add: new_session_def)
  note T = C1_lagging_fragment_errors_sequence [OF ff cfs lim, where reassemble = reassembly_routines
      and k = 5 and st = new_session]
  from T [THEN conjunct1] have a: "map (\<lambda>r. res_fragment r = None)
     (snd (dissect_stream default_prefs reassembly_routines zero_stack False 5 new_session
             (?ff # ?cfs)))
     = [False, False, False, False, True, True, True]"
    by (simp only: d)
  from T [THEN conjunct2, THEN conjunct2, THEN conjunct1]
  have b: "map_option (\<lambda>fr. (frame_error fr, frame_offset fr))
       (iso15765_frame_table
          (fst (dissect_stream default_prefs reassembly_routines zero_stack False 5 new_session
                  (?ff # ?cfs)))
          1)
       = Some (True, 27)"
    by (simp only: e o s)
  from a b show ?thesis by (rule conjI)
qed

subsection \<open>The wrap counter at its limit\<close>

text \<open>
  C9. The counter of a low fragment id is incremented and stored before the assertion that
  guards it. On a first pass, the consecutive frame that finds the counter of its low id at
  255 raises the dissector assertion: no fragment reaches the reassembly routines and no
  payload is handed over, but the counter has wrapped to 0 in the frame entry. The sequence
  stays open, and the next consecutive frame with the same low id passes the assertion with
  the wrapped counter: its expanded fragment id is the bare low id again and the counter goes
  to 1.
\<close>

theorem C9_counter_wraps_after_assertion:
  assumes cf1: "consecutive_frame cfg stack f = Some (n, dl)"
    and cf2: "consecutive_frame cfg stack f' = Some (n, dl')"
    and bound: "iso15765_frame_table st (msg_seqid st) = Some fr"
    and len: "length (frag_id_high fr) = 16"
    and full: "frag_id_high fr ! unat n = 255"
  shows "res_exn (snd (dissect_stream cfg reassemble stack False k st [f, f']) ! 0)
           = Some DissectorBug
       \<and> res_fragment (snd (dissect_stream cfg reassemble stack False k st [f, f']) ! 0) = None
       \<and> res_next (snd (dissect_stream cfg reassemble stack False k st [f, f']) ! 0) = None
       \<and> map_option (\<lambda>fr'. frag_id_high fr' ! unat n)
           (iso15765_frame_table (fst (dissect_stream cfg reassemble stack False k st [f]))
              (msg_seqid st))
           = Some 0
       \<and> ident_frag_id (res_ident (snd (dissect_stream cfg reassemble stack False k st [f, f']) ! 1))
           = n
       \<and> map_option (\<lambda>fr'. frag_id_high fr' ! unat n)
           (iso15765_frame_table (fst (dissect_stream cfg reassemble stack False k st [f, f']))
              (msg_seqid st))
           = Some 1"
proof -
  from cf1 have n16: "n < 16" by (rule consecutive_frameD)
  then have un: "unat n < length (frag_id_high fr)" using len unat_nibble [of n] by simp
  from cf_step [OF cf1 bound, of reassemble k] un full obtain st1 r1 where
    s1: "dissect_iso15765 cfg reassemble stack st (lf_tvb f)
          \<lparr>pinfo_num = k, pinfo_visited = False\<rparr>
          (lf_bus_type f) (lf_frame_id f) (lf_frame_length f) = (st1, r1)"
    and m1: "msg_seqid st1 = msg_seqid st"
    and t1: "iso15765_frame_table st1
             = (iso15765_frame_table st)(msg_seqid st \<mapsto> frame_after (window cfg) n dl fr)"
    and x1: "res_fragment r1 = None" "res_next r1 = None" "res_exn r1 = Some DissectorBug"
    by blast
  let ?fr1 = "frame_after (window cfg) n dl fr"
  from full have z: "frag_id_high fr ! unat n + 1 = 0" by (simp only: byte_succ_zero)
  have h1: "frag_id_high ?fr1 = (frag_id_high fr)[unat n := 0]"
    using frame_after_high [OF n16, of "window cfg" dl fr] z by simp
  have b1: "iso15765_frame_table st1 (msg_seqid st1) = Some ?fr1" by (simp add: m1 t1)
  have c1: "unat n < length (frag_id_high ?fr1)" "frag_id_high ?fr1 ! unat n = 0"
    using un by (simp_all add: h1)
  then have c1': "frag_id_high ?fr1 ! unat n \<noteq> 255" by simp
  from cf_step [OF cf2 b1, of reassemble "Suc k"] c1(1) c1' obtain st2 r2 where
    s2: "dissect_iso15765 cfg reassemble stack st1 (lf_tvb f')
          \<lparr>pinfo_num = Suc k, pinfo_visited = False\<rparr>
          (lf_bus_type f') (lf_frame_id f') (lf_frame_length f') = (st2, r2)"
    and t2: "iso15765_frame_table st2
             = (iso15765_frame_table st1)
                 (msg_seqid st1 \<mapsto> frame_after (window cfg) n dl' ?fr1)"
    and i2: "ident_frag_id (res_ident r2) = n + ucast (frag_id_high ?fr1 ! unat n) * 16"
    by blast
  have h2: "frag_id_high (frame_after (window cfg) n dl' ?fr1) ! unat n = 1"
    using frame_after_high [OF n16, of "window cfg" dl' ?fr1] c1 by simp
  show ?thesis
    using x1 i2 c1 h2 by (simp add: s1 s2 t1 t2 m1)
qed

theorem C9_counter_wraps_after_assertion_witness:
  "res_exn (snd (dissect_stream default_prefs reassembly_routines zero_stack False 5 new_session
                   ((can_frame 0x7E8 [0x1F, 0xFF, 1, 2, 3, 4, 5, 6]
                     # replicate 255 (can_frame 0x7E8 [0x21, 1, 2, 3, 4, 5, 6, 7]))
                    @ [can_frame 0x7E8 [0x21, 1, 2, 3, 4, 5, 6, 7],
                       can_frame 0x7E8 [0x21, 1, 2, 3, 4, 5, 6, 7]])) ! 256)
     = Some DissectorBug
   \<and> ident_frag_id (res_ident
       (snd (dissect_stream default_prefs reassembly_routines zero_stack False 5 new_session
               ((can_frame 0x7E8 [0x1F, 0xFF, 1, 2, 3, 4, 5, 6]
                 # replicate 255 (can_frame 0x7E8 [0x21, 1, 2, 3, 4, 5, 6, 7]))
                @ [can_frame 0x7E8 [0x21, 1, 2, 3, 4, 5, 6, 7],
                   can_frame 0x7E8 [0x21, 1, 2, 3, 4, 5, 6, 7]])) ! 257))
     = 1"
proof -
  let ?ff = "can_frame 0x7E8 [0x1F, 0xFF, 1, 2, 3, 4, 5, 6]"
  let ?cf = "can_frame 0x7E8 [0x21, 1, 2, 3, 4, 5, 6, 7]"
  let ?run = "\<lambda>k st fs. dissect_stream default_prefs reassembly_routines zero_stack False k st fs"
  let ?s = "msg_seqid new_session + 1"
  let ?fr0 = "(new_frame ?s 4095)
                \<lparr>frag_id_high := (replicate 16 0)[0 := 1], frame_offset := 6,
                 frame_complete := ((6 :: guint32) \<ge> 4095)\<rparr>"
  have ff: "first_frame default_prefs zero_stack ?ff = Some (4095, 6)" by code_simp
  have cf: "consecutive_frame default_prefs zero_stack ?cf = Some (1, 7)" by code_simp
  from ff_step [OF ff, of reassembly_routines new_session 5] obtain st1 r1 where
    s1: "dissect_iso15765 default_prefs reassembly_routines zero_stack new_session (lf_tvb ?ff)
           \<lparr>pinfo_num = 5, pinfo_visited = False\<rparr>
           (lf_bus_type ?ff) (lf_frame_id ?ff) (lf_frame_length ?ff) = (st1, r1)"
    and m1: "msg_seqid st1 = ?s"
    and t1: "iso15765_frame_table st1 = (iso15765_frame_table new_session)(?s \<mapsto> ?fr0)"
    by blast
  have b1: "iso15765_frame_table st1 (msg_seqid st1) = Some ?fr0" by (simp add: m1 t1)
  have l1: "length (frag_id_high ?fr0) = 16" by simp
  have rel: "\<forall>n<16. unat (frag_id_high ?fr0 ! unat n) = count_list [0] (n :: guint16)"
    using first_frame_counters by simp
  have nib: "map (\<lambda>f. map_option fst (consecutive_frame default_prefs zero_stack f))
               (replicate 255 ?cf) = map Some (replicate 255 1)"
    by (simp add: cf)
  have lim: "\<forall>n \<in> set (replicate 255 (1 :: guint16)). count_list ([0] @ replicate 255 1) n \<le> 255"
    by (simp add: count_list_replicate)
  let ?stp = "fst (?run 6 st1 (replicate 255 ?cf))"
  from cf_run_counters [OF consecutive_nibbles [OF nib] b1 l1 rel lim,
         of reassembly_routines 6]
  obtain fr' where
    bp: "iso15765_frame_table ?stp (msg_seqid st1) = Some fr'"
    and mp: "msg_seqid ?stp = msg_seqid st1"
    and lp: "length (frag_id_high fr') = 16"
    and cp: "\<forall>n<16. unat (frag_id_high fr' ! unat n) = count_list ([0] @ replicate 255 1) (n :: guint16)"
    by blast
  have "(1 :: guint16) < 16" by simp
  with cp have "unat (frag_id_high fr' ! unat (1 :: guint16))
                  = count_list ([0] @ replicate 255 1) (1 :: guint16)"
    by blast
  then have "unat (frag_id_high fr' ! unat (1 :: guint16)) = 255"
    by (simp add: count_list_replicate)
  then have full: "frag_id_high fr' ! unat (1 :: guint16) = 255"
    by (simp add: word_unat_eq_iff)
  from bp mp have bp': "iso15765_frame_table ?stp (msg_seqid ?stp) = Some fr'" by simp
  have pre: "fst (?run 5 new_session (?ff # replicate 255 ?cf)) = ?stp"
    using s1 by (simp add: dissect_stream_Cons_fst del: dissect_stream.simps(2))
  have len: "length (snd (?run 5 new_session (?ff # replicate 255 ?cf))) = 256"
    by (simp only: length_dissect_stream) simp
  have split: "snd (?run 5 new_session ((?ff # replicate 255 ?cf) @ [?cf, ?cf]))
                 = snd (?run 5 new_session (?ff # replicate 255 ?cf))
                   @ snd (?run 261 ?stp [?cf, ?cf])"
    by (simp only: dissect_stream_append_snd pre) simp
  from C9_counter_wraps_after_assertion [OF cf cf bp' lp full, of reassembly_routines 261]
  have "res_exn (snd (?run 261 ?stp [?cf, ?cf]) ! 0) = Some DissectorBug"
    and "ident_frag_id (res_ident (snd (?run 261 ?stp [?cf, ?cf]) ! 1)) = 1"
    by simp_all
  then show ?thesis
    unfolding split by (simp add: nth_append len del: dissect_stream.simps(2))
qed

subsection \<open>Replay\<close>

text \<open>
  C7. A stream is dissected on a first pass and then replayed, frame by frame under the same
  frame numbers, from the state the first pass left, with any reassembly routines. The
  replay changes neither the sequence counter nor any frame entry (wrap counters,
  accumulated bytes, highest fragment id, error and completion flags) nor any cached
  identifier, and every frame shows the identifier the first pass cached for it (sequence
  id, expanded fragment id, terminal flag). What a replayed frame of a segmented message
  submits and hands on, however, is decided by the state its sequence has at the end of the
  first pass and by the payload length of the frame as it was parsed. If the sequence is in
  error at the end, the frame submits nothing and hands on its own payload as an incomplete
  message, whatever it submitted and handed on in the first pass. Otherwise it submits its
  fragment under the cached sequence id, fragment id and terminal flag, but with the whole
  payload length of the frame, where the first pass submitted the trimmed length for the
  completing fragment. In the example a sequence completes with the second frame, and a
  later stray consecutive frame lags behind the window: on the first pass the second frame
  hands on the reassembled 13 bytes as a complete message, on the replay its own 7 bytes as
  an incomplete one.
\<close>

theorem C7_replay_reads_final_error_flag:
  "let first = dissect_stream cfg reassemble stack False k st fs;
       replay = dissect_stream cfg reassemble stack True k (fst first) fs
   in msg_seqid (fst replay) = msg_seqid (fst first)
    \<and> iso15765_frame_table (fst replay) = iso15765_frame_table (fst first)
    \<and> proto_data (fst replay) = proto_data (fst first)
    \<and> map res_ident (snd replay) = map res_ident (snd first)
    \<and> list_all2 (\<lambda>r1 r2. case res_fragment r2 of
                    None \<Rightarrow> True
                  | Some c \<Rightarrow>
                      fa_id c = ident_seq (res_ident r1)
                      \<and> fa_frag_number c = ident_frag_id (res_ident r1)
                      \<and> fa_more_frags c = (\<not> ident_last (res_ident r1))
                      \<and> map_option frame_error
                          (iso15765_frame_table (fst first) (ident_seq (res_ident r1)))
                          = Some False)
        (snd first) (snd replay)
    \<and> (\<forall>j<length fs. \<forall>d l.
          parse_frame cfg stack (lf_tvb (fs ! j)) (lf_bus_type (fs ! j)) (lf_frame_id (fs ! j))
            (lf_frame_length (fs ! j)) = Inr (Some (d, l))
          \<and> l_fragmented l \<and> show_data_ok (lf_tvb (fs ! j)) l \<longrightarrow>
          (case iso15765_frame_table (fst first) (ident_seq (res_ident (snd first ! j))) of
             None \<Rightarrow>
               snd replay ! j
                 = \<lparr>res_ident = res_ident (snd first ! j), res_fragment = None,
                    res_next = None, res_exn = None\<rparr>
           | Some frame \<Rightarrow>
               if frame_error frame then
                 snd replay ! j
                   = \<lparr>res_ident = res_ident (snd first ! j), res_fragment = None,
                      res_next = Some (False,
                                       tvb_new_subset_length (lf_tvb (fs ! j)) (l_offset l)
                                         (l_data_length l),
                                       d\<lparr>data_len := lf_frame_length (fs ! j)\<rparr>),
                      res_exn = None\<rparr>
               else
                 res_fragment (snd replay ! j)
                   = Some \<lparr>fa_tvb = lf_tvb (fs ! j), fa_offset = l_offset l,
                           fa_pinfo = \<lparr>pinfo_num = k + j, pinfo_visited = True\<rparr>,
                           fa_id = ident_seq (res_ident (snd first ! j)),
                           fa_frag_number = ident_frag_id (res_ident (snd first ! j)),
                           fa_frag_data_len = l_data_length l,
                           fa_more_frags = (\<not> ident_last (res_ident (snd first ! j)))\<rparr>))"
proof -
  let ?first = "dissect_stream cfg reassemble stack False k st fs"
  let ?infos = "map res_ident (snd ?first)"
  have len: "length ?infos = length fs" by (simp add: length_dissect_stream)
  have cached: "\<forall>i<length fs. proto_data (fst ?first) (k + i) = Some (?infos ! i)"
    by (simp add: dissect_stream_proto_data length_dissect_stream)
  have nth: "j < length fs \<Longrightarrow> ?infos ! j = res_ident (snd ?first ! j)" for j
    by (simp add: length_dissect_stream)
  have frag: "\<forall>j<length fs. \<forall>d l.
          parse_frame cfg stack (lf_tvb (fs ! j)) (lf_bus_type (fs ! j)) (lf_frame_id (fs ! j))
            (lf_frame_length (fs ! j)) = Inr (Some (d, l))
          \<and> l_fragmented l \<and> show_data_ok (lf_tvb (fs ! j)) l \<longrightarrow>
          (case iso15765_frame_table (fst ?first) (ident_seq (res_ident (snd ?first ! j))) of
             None \<Rightarrow>
               snd (dissect_stream cfg reassemble stack True k (fst ?first) fs) ! j
                 = \<lparr>res_ident = res_ident (snd ?first ! j), res_fragment = None,
                    res_next = None, res_exn = None\<rparr>
           | Some frame \<Rightarrow>
               if frame_error frame then
                 snd (dissect_stream cfg reassemble stack True k (fst ?first) fs) ! j
                   = \<lparr>res_ident = res_ident (snd ?first ! j), res_fragment = None,
                      res_next = Some (False,
                                       tvb_new_subset_length (lf_tvb (fs ! j)) (l_offset l)
                                         (l_data_length l),
                                       d\<lparr>data_len := lf_frame_length (fs ! j)\<rparr>),
                      res_exn = None\<rparr>
               else
                 res_fragment (snd (dissect_stream cfg reassemble stack True k (fst ?first) fs) ! j)
                   = Some \<lparr>fa_tvb = lf_tvb (fs ! j), fa_offset = l_offset l,
                           fa_pinfo = \<lparr>pinfo_num = k + j, pinfo_visited = True\<rparr>,
                           fa_id = ident_seq (res_ident (snd ?first ! j)),
                           fa_frag_number = ident_frag_id (res_ident (snd ?first ! j)),
                           fa_frag_data_len = l_data_length l,
                           fa_more_frags = (\<not> ident_last (res_ident (snd ?first ! j)))\<rparr>)"
  proof (intro allI impI)
    fix j d l
    assume j: "j < length fs"
      and h: "parse_frame cfg stack (lf_tvb (fs ! j)) (lf_bus_type (fs ! j)) (lf_frame_id (fs ! j))
                (lf_frame_length (fs ! j)) = Inr (Some (d, l))
              \<and> l_fragmented l \<and> show_data_ok (lf_tvb (fs ! j)) l"
    from h have p: "parse_frame cfg stack (lf_tvb (fs ! j)) (lf_bus_type (fs ! j))
                      (lf_frame_id (fs ! j)) (lf_frame_length (fs ! j)) = Inr (Some (d, l))"
      and f: "l_fragmented l" and o: "show_data_ok (lf_tvb (fs ! j)) l"
      by simp_all
    from replay_stream_fragments [OF cached len j p f o, of reassemble]
    show "case iso15765_frame_table (fst ?first) (ident_seq (res_ident (snd ?first ! j))) of
             None \<Rightarrow>
               snd (dissect_stream cfg reassemble stack True k (fst ?first) fs) ! j
                 = \<lparr>res_ident = res_ident (snd ?first ! j), res_fragment = None,
                    res_next = None, res_exn = None\<rparr>
           | Some frame \<Rightarrow>
               if frame_error frame then
                 snd (dissect_stream cfg reassemble stack True k (fst ?first) fs) ! j
                   = \<lparr>res_ident = res_ident (snd ?first ! j), res_fragment = None,
                      res_next = Some (False,
                                       tvb_new_subset_length (lf_tvb (fs ! j)) (l_offset l)
                                         (l_data_length l),
                                       d\<lparr>data_len := lf_frame_length (fs ! j)\<rparr>),
                      res_exn = None\<rparr>
               else
                 res_fragment (snd (dissect_stream cfg reassemble stack True k (fst ?first) fs) ! j)
                   = Some \<lparr>fa_tvb = lf_tvb (fs ! j), fa_offset = l_offset l,
                           fa_pinfo = \<lparr>pinfo_num = k + j, pinfo_visited = True\<rparr>,
                           fa_id = ident_seq (res_ident (snd ?first ! j)),
                           fa_frag_number = ident_frag_id (res_ident (snd ?first ! j)),
                           fa_frag_data_len = l_data_length l,
                           fa_more_frags = (\<not> ident_last (res_ident (snd ?first ! j)))\<rparr>"
      unfolding nth [OF j] .
  qed
  from replay_stream [OF cached len, of cfg reassemble stack] frag
  show ?thesis
    unfolding Let_def by (simp add: list_all2_map1)
qed


theorem C7_replay_reads_final_error_flag_witness:
  "let fs = [can_frame 0x7E8 [0x10, 0x0D, 1, 2, 3, 4, 5, 6],
                 can_frame 0x7E8 [0x21, 7, 8, 9, 10, 11, 12, 13],
                 can_frame 0x7E8 [0x21, 1, 2, 3, 4, 5, 6, 7],
                 can_frame 0x7E8 [0x22, 1, 2, 3, 4, 5, 6, 7]];
       first = dissect_stream default_prefs reassembly_routines zero_stack False 5 new_session fs;
       replay = dissect_stream default_prefs reassembly_routines zero_stack True 5 (fst first) fs
   in map_option (\<lambda>(complete, t, d). (complete, t)) (res_next (snd first ! 1))
        = Some (True, [1, 2, 3, 4, 5, 6, 7, 8, 9, 10, 11, 12, 13])
    \<and> map_option fa_frag_data_len (res_fragment (snd first ! 1)) = Some 7
    \<and> res_fragment (snd replay ! 1) = None
    \<and> map_option (\<lambda>(complete, t, d). (complete, t)) (res_next (snd replay ! 1))
        = Some (False, [7, 8, 9, 10, 11, 12, 13])
    \<and> map res_ident (snd replay) = map res_ident (snd first)"
proof -
  let ?fs = "[can_frame 0x7E8 [0x10, 0x0D, 1, 2, 3, 4, 5, 6],
                 can_frame 0x7E8 [0x21, 7, 8, 9, 10, 11, 12, 13],
                 can_frame 0x7E8 [0x21, 1, 2, 3, 4, 5, 6, 7],
                 can_frame 0x7E8 [0x22, 1, 2, 3, 4, 5, 6, 7]]"
  let ?first = "dissect_stream default_prefs reassembly_routines zero_stack False 5 new_session ?fs"
  let ?replay = "dissect_stream default_prefs reassembly_routines zero_stack True 5 (fst ?first) ?fs"
  let ?d = "\<lparr>data_bus_type = ISO15765_TYPE_CAN, data_id = 0x7E8, data_len = 0,
             number_of_addresses_valid = 0, source_address = 0, target_address = 0\<rparr>"
  let ?l = "\<lparr>l_offset = 1, l_data_length = 7, l_frag_id_low = 1, l_fragmented = True,
             l_next_tvb = None, l_complete = False, l_save = SaveConsecutiveFrame\<rparr>"
  have a: "map_option (\<lambda>(complete, t, d). (complete, t)) (res_next (snd ?first ! 1))
             = Some (True, [1, 2, 3, 4, 5, 6, 7, 8, 9, 10, 11, 12, 13])
           \<and> map_option fa_frag_data_len (res_fragment (snd ?first ! 1)) = Some 7"
    by code_simp
  have e: "map_option frame_error
             (iso15765_frame_table (fst ?first) (ident_seq (res_ident (snd ?first ! 1))))
             = Some True"
    by code_simp
  then obtain fr where
    fr: "iso15765_frame_table (fst ?first) (ident_seq (res_ident (snd ?first ! 1))) = Some fr"
      "frame_error fr"
    by auto
  have p: "parse_frame default_prefs zero_stack (lf_tvb (?fs ! 1)) (lf_bus_type (?fs ! 1))
             (lf_frame_id (?fs ! 1)) (lf_frame_length (?fs ! 1)) = Inr (Some (?d, ?l))"
    by code_simp
  have o: "show_data_ok (lf_tvb (?fs ! 1)) ?l" by code_simp
  note T = C7_replay_reads_final_error_flag [of default_prefs reassembly_routines zero_stack 5
      new_session ?fs, unfolded Let_def]
  from T have same: "map res_ident (snd ?replay) = map res_ident (snd ?first)" by (elim conjE)
  from T have "\<forall>j<length ?fs. \<forall>d l.
          parse_frame default_prefs zero_stack (lf_tvb (?fs ! j)) (lf_bus_type (?fs ! j))
            (lf_frame_id (?fs ! j)) (lf_frame_length (?fs ! j)) = Inr (Some (d, l))
          \<and> l_fragmented l \<and> show_data_ok (lf_tvb (?fs ! j)) l \<longrightarrow>
          (case iso15765_frame_table (fst ?first) (ident_seq (res_ident (snd ?first ! j))) of
             None \<Rightarrow>
               snd ?replay ! j
                 = \<lparr>res_ident = res_ident (snd ?first ! j), res_fragment = None,
                    res_next = None, res_exn = None\<rparr>
           | Some frame \<Rightarrow>
               if frame_error frame then
                 snd ?replay ! j
                   = \<lparr>res_ident = res_ident (snd ?first ! j), res_fragment = None,
                      res_next = Some (False,
                                       tvb_new_subset_length (lf_tvb (?fs ! j)) (l_offset l)
                                         (l_data_length l),
                                       d\<lparr>data_len := lf_frame_length (?fs ! j)\<rparr>),
                      res_exn = None\<rparr>
               else
                 res_fragment (snd ?replay ! j)
                   = Some \<lparr>fa_tvb = lf_tvb (?fs ! j), fa_offset = l_offset l,
                           fa_pinfo = \<lparr>pinfo_num = 5 + j, pinfo_visited = True\<rparr>,
                           fa_id = ident_seq (res_ident (snd ?first ! j)),
                           fa_frag_number = ident_frag_id (res_ident (snd ?first ! j)),
                           fa_frag_data_len = l_data_length l,
                           fa_more_frags = (\<not> ident_last (res_ident (snd ?first ! j)))\<rparr>)"
    by (elim conjE)
  then have "1 < length ?fs \<longrightarrow> (\<forall>d l.
          parse_frame default_prefs zero_stack (lf_tvb (?fs ! 1)) (lf_bus_type (?fs ! 1))
            (lf_frame_id (?fs ! 1)) (lf_frame_length (?fs ! 1)) = Inr (Some (d, l))
          \<and> l_fragmented l \<and> show_data_ok (lf_tvb (?fs ! 1)) l \<longrightarrow>
          (case iso15765_frame_table (fst ?first) (ident_seq (res_ident (snd ?first ! 1))) of
             None \<Rightarrow>
               snd ?replay ! 1
                 = \<lparr>res_ident = res_ident (snd ?first ! 1), res_fragment = None,
                    res_next = None, res_exn = None\<rparr>
           | Some frame \<Rightarrow>
               if frame_error frame then
                 snd ?replay ! 1
                   = \<lparr>res_ident = res_ident (snd ?first ! 1), res_fragment = None,
                      res_next = Some (False,
                                       tvb_new_subset_length (lf_tvb (?fs ! 1)) (l_offset l)
                                         (l_data_length l),
                                       d\<lparr>data_len := lf_frame_length (?fs ! 1)\<rparr>),
                      res_exn = None\<rparr>
               else
                 res_fragment (snd ?replay ! 1)
                   = Some \<lparr>fa_tvb = lf_tvb (?fs ! 1), fa_offset = l_offset l,
                           fa_pinfo = \<lparr>pinfo_num = 5 + 1, pinfo_visited = True\<rparr>,
                           fa_id = ident_seq (res_ident (snd ?first ! 1)),
                           fa_frag_number = ident_frag_id (res_ident (snd ?first ! 1)),
                           fa_frag_data_len = l_data_length l,
                           fa_more_frags = (\<not> ident_last (res_ident (snd ?first ! 1)))\<rparr>))"
    by (rule spec)
  then have "snd ?replay ! 1
               = \<lparr>res_ident = res_ident (snd ?first ! 1), res_fragment = None,
                  res_next = Some (False,
                                   tvb_new_subset_length (lf_tvb (?fs ! 1)) (l_offset ?l)
                                     (l_data_length ?l),
                                   ?d\<lparr>data_len := lf_frame_length (?fs ! 1)\<rparr>),
                  res_exn = None\<rparr>"
    using p o fr by (auto simp del: dissect_stream.simps(2))
  moreover have "tvb_new_subset_length (lf_tvb (?fs ! 1)) (l_offset ?l) (l_data_length ?l)
                   = [7, 8, 9, 10, 11, 12, 13]"
    by code_simp
  ultimately have b: "res_fragment (snd ?replay ! 1) = None
      \<and> map_option (\<lambda>(complete, t, d). (complete, t)) (res_next (snd ?replay ! 1))
          = Some (False, [7, 8, 9, 10, 11, 12, 13])"
    by simp
  from a b same show ?thesis unfolding Let_def by blast
qed

subsection \<open>Completion\<close>

text \<open>
  C4. A first frame and the consecutive frames after it, on a first pass over frames not
  seen before, with the modelled reassembly routines holding nothing under the sequence id
  the first frame allocates. No low id occurs more than 255 times, no fragment lags behind
  the window, every frame carries a payload of positive length, and the payload bytes first
  reach the declared length with the last frame, their count staying below \<open>2 ^ 32\<close>.
  Then every fragment is submitted under the sequence id of the first frame and its own
  expanded fragment id; every fragment before the last is submitted whole and flagged as
  having successors, the last with the exact remainder and flagged terminal, so that the
  submitted lengths add up to the declared length; the frame entry of the sequence is
  marked complete; nothing is raised; every frame before the last hands its own payload on
  as an incomplete message, and the last frame hands on one complete message of the
  declared length. A first frame that carries the whole declared length by itself is the
  case of no consecutive frame.
\<close>

theorem C4_final_fragment_trimmed:
  fixes st :: "reassembly_table iso15765_state"
  assumes ff: "first_frame cfg stack f = Some (full_len, dl0)"
    and cfs: "list_all2 (\<lambda>f nd. consecutive_frame cfg stack f = Some nd) cfs nds"
    and fresh: "\<forall>i \<le> length cfs. proto_data st (k + i) = None"
    and unused: "held_ids (iso15765_reassembly_table st) (msg_seqid st + 1) = []"
    and lim: "\<forall>n \<in> set (map fst nds). count_list (0 # map fst nds) n \<le> 255"
    and nolag: "\<not> list_ex (spec_lags (window cfg) (spec_expanded_ids [] (0 # map fst nds)))
                   [0..<Suc (length nds)]"
    and pos: "0 <s dl0 \<and> (\<forall>nd \<in> set nds. 0 <s snd nd)"
    and before: "sum_list (butlast (unat dl0 # map (\<lambda>nd. unat (snd nd)) nds)) < unat full_len"
    and reach: "unat full_len \<le> sum_list (unat dl0 # map (\<lambda>nd. unat (snd nd)) nds)"
    and nowrap: "sum_list (unat dl0 # map (\<lambda>nd. unat (snd nd)) nds) < 2 ^ 32"
  shows "map (\<lambda>r. map_option (\<lambda>c. (fa_id c, unat (fa_frag_number c))) (res_fragment r))
           (snd (dissect_stream cfg reassembly_routines stack False k st (f # cfs)))
           = map (\<lambda>i. Some (msg_seqid st + 1, i)) (spec_expanded_ids [] (0 # map fst nds))
       \<and> map (\<lambda>r. map_option (\<lambda>c. (unat (fa_frag_data_len c), fa_more_frags c))
                   (res_fragment r))
           (snd (dissect_stream cfg reassembly_routines stack False k st (f # cfs)))
           = map (\<lambda>d. Some (d, True)) (butlast (unat dl0 # map (\<lambda>nd. unat (snd nd)) nds))
             @ [Some (unat full_len
                        - sum_list (butlast (unat dl0 # map (\<lambda>nd. unat (snd nd)) nds)),
                      False)]
       \<and> sum_list (map (\<lambda>r. case res_fragment r of
                                None \<Rightarrow> 0
                              | Some c \<Rightarrow> unat (fa_frag_data_len c))
                     (snd (dissect_stream cfg reassembly_routines stack False k st (f # cfs))))
           = unat full_len
       \<and> map_option (\<lambda>fr. (frame_complete fr, frame_len fr))
           (iso15765_frame_table
              (fst (dissect_stream cfg reassembly_routines stack False k st (f # cfs)))
              (msg_seqid st + 1))
           = Some (True, full_len)
       \<and> map (\<lambda>r. (res_exn r,
                    map_option (\<lambda>(complete, t, d). (complete, length t)) (res_next r)))
           (snd (dissect_stream cfg reassembly_routines stack False k st (f # cfs)))
           = map (\<lambda>d. (None, Some (False, d)))
               (butlast (unat dl0 # map (\<lambda>nd. unat (snd nd)) nds))
             @ [(None, Some (True, unat full_len))]"
proof -
  let ?w = "window cfg"
  let ?s = "msg_seqid st + 1"
  let ?ids = "spec_expanded_ids [] (0 # map fst nds)"
  let ?fr0 = "(new_frame ?s full_len)
                \<lparr>frag_id_high := (replicate 16 0)[0 := 1], frame_offset := dl0,
                 frame_complete := (dl0 \<ge> full_len)\<rparr>"
  let ?D = "dissect_iso15765 cfg reassembly_routines stack st (lf_tvb f)
              \<lparr>pinfo_num = k, pinfo_visited = False\<rparr>
              (lf_bus_type f) (lf_frame_id f) (lf_frame_length f)"
  let ?run = "dissect_stream cfg reassembly_routines stack False (Suc k) (fst ?D) cfs"
  from ff_step [OF ff, of reassembly_routines st k] obtain c1 where
    m1: "msg_seqid (fst ?D) = ?s"
    and t1: "iso15765_frame_table (fst ?D) = (iso15765_frame_table st)(?s \<mapsto> ?fr0)"
    and c1: "res_fragment (snd ?D) = Some c1"
    by auto
  have b1: "iso15765_frame_table (fst ?D) (msg_seqid (fst ?D)) = Some ?fr0"
    by (simp add: m1 t1)
  have l1: "length (frag_id_high ?fr0) = 16" by simp
  have rel: "\<forall>n<16. unat (frag_id_high ?fr0 ! unat n) = count_list [0] (n :: guint16)"
    using first_frame_counters by simp
  have lim1: "\<forall>n \<in> set (map fst nds). count_list ([0] @ map fst nds) n \<le> 255"
    using lim by simp
  have e0: "frame_error ?fr0
              = list_ex (spec_lags ?w (spec_expanded_ids [] [0])) [0..<length [0 :: guint16]]"
    by (simp add: new_frame_def spec_lags_def spec_highest_seen_def)
  have h0: "\<not> frame_error ?fr0 \<longrightarrow>
              unat (last_frag_id ?fr0) = spec_highest_seen (spec_expanded_ids [] [0])"
    by (simp add: new_frame_def spec_highest_seen_def)
  from cf_run_window [OF cfs b1 l1 rel lim1 e0 h0, of reassembly_routines "Suc k"]
  have dr: "map (\<lambda>r. res_fragment r = None) (snd ?run)
              = map (\<lambda>j. spec_dropped ?w ?ids (Suc j)) [0..<length nds]"
    by auto
  have "map (\<lambda>j. spec_dropped ?w ?ids (Suc j)) [0..<length nds]
          = map (\<lambda>j. False) [0..<length nds]"
    using no_lag_no_drop [OF nolag] by simp
  with dr have "map (\<lambda>r. res_fragment r = None) (snd ?run) = map (\<lambda>j. False) [0..<length nds]"
    by simp
  then have "set (map (\<lambda>r. res_fragment r = None) (snd ?run)) \<subseteq> {False}"
    by (simp only: set_map) auto
  then have sub1: "\<forall>r \<in> set (snd ?run). res_fragment r \<noteq> None" by auto
  have sub: "\<forall>r \<in> set (snd (dissect_stream cfg reassembly_routines stack False k st (f # cfs))).
               res_fragment r \<noteq> None"
    unfolding dissect_stream_Cons_snd using sub1 c1 by simp
  from pos have pos0: "0 <s dl0" and pos': "\<forall>nd \<in> set nds. 0 <s snd nd" by simp_all
  from first_pass_completion [OF ff cfs fresh sub before reach nowrap]
       completion_handed_over [OF ff cfs fresh sub before reach nowrap lim pos0 pos' unused]
  show ?thesis by simp
qed

theorem C4_final_fragment_trimmed_witness:
  "map (\<lambda>r. map_option (\<lambda>c. (fa_id c, unat (fa_frag_number c), unat (fa_frag_data_len c),
                               fa_more_frags c)) (res_fragment r))
     (snd (dissect_stream default_prefs reassembly_routines zero_stack False 5 new_session
             (can_frame 0x7E8 [0x10, 0x11, 1, 2, 3, 4, 5, 6]
              # [can_frame 0x7E8 [0x21, 7, 8, 9, 10, 11, 12, 13],
                 can_frame 0x7E8 [0x22, 14, 15, 16, 17, 18, 19, 20]])))
     = [Some (1, 0, 6, True), Some (1, 1, 7, True), Some (1, 2, 4, False)]
   \<and> map_option (\<lambda>fr. (frame_complete fr, frame_len fr))
       (iso15765_frame_table
          (fst (dissect_stream default_prefs reassembly_routines zero_stack False 5 new_session
                  (can_frame 0x7E8 [0x10, 0x11, 1, 2, 3, 4, 5, 6]
                   # [can_frame 0x7E8 [0x21, 7, 8, 9, 10, 11, 12, 13],
                      can_frame 0x7E8 [0x22, 14, 15, 16, 17, 18, 19, 20]])))
          1)
       = Some (True, 17)
   \<and> map (\<lambda>r. (res_exn r, map_option (\<lambda>(complete, t, d). (complete, t)) (res_next r)))
       (snd (dissect_stream default_prefs reassembly_routines zero_stack False 5 new_session
               (can_frame 0x7E8 [0x10, 0x11, 1, 2, 3, 4, 5, 6]
                # [can_frame 0x7E8 [0x21, 7, 8, 9, 10, 11, 12, 13],
                   can_frame 0x7E8 [0x22, 14, 15, 16, 17, 18, 19, 20]])))
       = [(None, Some (False, [1, 2, 3, 4, 5, 6])),
          (None, Some (False, [7, 8, 9, 10, 11, 12, 13])),
          (None, Some (True, [1, 2, 3, 4, 5, 6, 7, 8, 9, 10, 11, 12, 13, 14, 15, 16, 17]))]
   \<and> map (\<lambda>r. (res_exn r, map_option (\<lambda>(complete, t, d). (complete, length t)) (res_next r)))
       (snd (dissect_stream default_prefs reassembly_routines zero_stack False 5 new_session
               (can_frame 0x7E8 [0x10, 0x11, 1, 2, 3, 4, 5, 6]
                # [can_frame 0x7E8 [0x21, 7, 8, 9, 10, 11, 12, 13],
                   can_frame 0x7E8 [0x22, 14, 15, 16, 17, 18, 19, 20]])))
       = [(None, Some (False, 6)), (None, Some (False, 7)), (None, Some (True, 17))]"
proof -
  let ?ff = "can_frame 0x7E8 [0x10, 0x11, 1, 2, 3, 4, 5, 6]"
  let ?cfs = "[can_frame 0x7E8 [0x21, 7, 8, 9, 10, 11, 12, 13],
               can_frame 0x7E8 [0x22, 14, 15, 16, 17, 18, 19, 20]]"
  let ?nds = "[(1, 7), (2, 7)] :: (guint16 \<times> guint32) list"
  let ?R = "dissect_stream default_prefs reassembly_routines zero_stack False 5 new_session
              (?ff # ?cfs)"
  have ff: "first_frame default_prefs zero_stack ?ff = Some (17, 6)" by code_simp
  have cfs: "list_all2 (\<lambda>f nd. consecutive_frame default_prefs zero_stack f = Some nd) ?cfs ?nds"
    by code_simp
  have fresh: "\<forall>i \<le> length ?cfs. proto_data new_session (5 + i) = None"
    by (simp add: new_session_def)
  have unused: "held_ids (iso15765_reassembly_table new_session) (msg_seqid new_session + 1) = []"
    by (simp add: new_session_def held_ids_def)
  have lim: "\<forall>n \<in> set (map fst ?nds). count_list (0 # map fst ?nds) n \<le> 255"
    by simp
  have nolag: "\<not> list_ex (spec_lags (window default_prefs)
                            (spec_expanded_ids [] (0 # map fst ?nds)))
                   [0..<Suc (length ?nds)]"
    by code_simp
  have pos: "0 <s (6 :: guint32) \<and> (\<forall>nd \<in> set ?nds. 0 <s snd nd)"
    by (simp add: word_sless_alt)
  have before: "sum_list (butlast (unat (6 :: guint32) # map (\<lambda>nd. unat (snd nd)) ?nds))
                  < unat (17 :: guint32)"
    by simp
  have reach: "unat (17 :: guint32)
                 \<le> sum_list (unat (6 :: guint32) # map (\<lambda>nd. unat (snd nd)) ?nds)"
    by simp
  have nowrap: "sum_list (unat (6 :: guint32) # map (\<lambda>nd. unat (snd nd)) ?nds) < 2 ^ 32"
    by simp
  have s: "msg_seqid new_session + 1 = 1" by (simp add: new_session_def)
  note T = C4_final_fragment_trimmed [OF ff cfs fresh unused lim nolag pos before reach nowrap]
  from T [THEN conjunct2, THEN conjunct2, THEN conjunct2, THEN conjunct1]
  have a: "map_option (\<lambda>fr. (frame_complete fr, frame_len fr))
             (iso15765_frame_table (fst ?R) 1) = Some (True, 17)"
    by (simp only: s)
  have b: "map (\<lambda>r. map_option (\<lambda>c. (fa_id c, unat (fa_frag_number c), unat (fa_frag_data_len c),
                               fa_more_frags c)) (res_fragment r)) (snd ?R)
             = [Some (1, 0, 6, True), Some (1, 1, 7, True), Some (1, 2, 4, False)]"
    by code_simp
  have c: "map (\<lambda>r. (res_exn r, map_option (\<lambda>(complete, t, d). (complete, t)) (res_next r)))
             (snd ?R)
             = [(None, Some (False, [1, 2, 3, 4, 5, 6])),
                (None, Some (False, [7, 8, 9, 10, 11, 12, 13])),
                (None, Some (True, [1, 2, 3, 4, 5, 6, 7, 8, 9, 10, 11, 12, 13, 14, 15, 16, 17]))]"
    by code_simp
  from T [THEN conjunct2, THEN conjunct2, THEN conjunct2, THEN conjunct2]
  have d: "map (\<lambda>r. (res_exn r,
                      map_option (\<lambda>(complete, t, d). (complete, length t)) (res_next r)))
             (snd ?R)
             = [(None, Some (False, 6)), (None, Some (False, 7)), (None, Some (True, 17))]"
    by (simp del: dissect_stream.simps(2))
  from b a c d show ?thesis by (intro conjI)
qed

end
